theory Spec2Isabelle
  imports Complex_Main
begin

section \<open>TIG Fractal Runtime: constants\<close>

text \<open>
  The development embeds \<^verbatim>\<open>src/TIGFractalEngine.py\<close>: the Pulse, the Triad and the
  LatticeRuntime. Python floats are read as real numbers (exact arithmetic: rounding,
  infinities and NaN are outside this model), except the rate that the constructors
  take, where an infinity, NaN and the overflow of the one division are modelled;
  Python ints are \<open>int\<close> or, for counters that only ever grow from zero, \<open>nat\<close>.
\<close>

definition SIGMA_const :: real where
  "SIGMA_const = 991 / 1000"

definition SIGMA_STAR :: real where
  "SIGMA_STAR = 9 / 1000"

definition T_STAR :: real where
  "T_STAR = 714 / 1000"

definition FACTOR :: real where
  "FACTOR = SIGMA_const * (1 - SIGMA_STAR)"

definition s_star :: "real \<Rightarrow> real \<Rightarrow> real" where
  "s_star V A = FACTOR * V * A"

datatype py_error = ZeroDivisionError | IndexError | OverflowError | ValueError

section \<open>Containers\<close>

text \<open>\<^verbatim>\<open>deque(maxlen=n).append(x)\<close>: a full deque drops its oldest entry.\<close>

definition deque_append :: "nat \<Rightarrow> 'a list \<Rightarrow> 'a \<Rightarrow> 'a list" where
  "deque_append maxlen xs x = (if length xs < maxlen then xs @ [x] else tl xs @ [x])"

text \<open>The slice \<^verbatim>\<open>xs[-n:]\<close> for a positive \<open>n\<close>.\<close>

definition last_n :: "nat \<Rightarrow> 'a list \<Rightarrow> 'a list" where
  "last_n n xs = drop (length xs - n) xs"

text \<open>
  A \<^verbatim>\<open>dict\<close> is an association list in insertion order: assigning to a present key
  overwrites its value in place, assigning to a new key appends.
\<close>

fun dict_set :: "('k \<times> 'v) list \<Rightarrow> 'k \<Rightarrow> 'v \<Rightarrow> ('k \<times> 'v) list" where
  "dict_set [] k v = [(k, v)]"
| "dict_set ((k', v') # d) k v = (if k' = k then (k, v) # d else (k', v') # dict_set d k v)"

definition dict_get :: "('k \<times> 'v) list \<Rightarrow> 'k \<Rightarrow> 'v \<Rightarrow> 'v" where
  "dict_get d k dflt = (case map_of d k of None \<Rightarrow> dflt | Some v \<Rightarrow> v)"

definition dict_values :: "('k \<times> 'v) list \<Rightarrow> 'v list" where
  "dict_values d = map snd d"

section \<open>The Triad\<close>

text \<open>
  Triad objects live in a store, a list addressed by position; \<open>parent\<close> and
  \<open>children\<close> hold addresses. \<^verbatim>\<open>Triad.__init__\<close> is \<open>new_triad\<close>: it allocates the
  object at the next free address and registers it with its parent.
\<close>

record triad =
  name :: string
  micro_buf :: "real list"
  micro_len :: nat
  self_ema :: real
  self_emv :: real
  macro_s_star :: real
  count :: nat
  parent :: "nat option"
  children :: "nat list"
  child_coherences :: "(string \<times> real) list"

definition C :: real where
  "C = 1"

definition fresh_triad :: "string \<Rightarrow> nat option \<Rightarrow> triad" where
  "fresh_triad nm p =
     \<lparr>name = nm, micro_buf = [], micro_len = 0, self_ema = 0, self_emv = 0,
      macro_s_star = T_STAR, count = 0, parent = p, children = [],
      child_coherences = []\<rparr>"

definition new_triad :: "triad list \<Rightarrow> string \<Rightarrow> nat option \<Rightarrow> triad list" where
  "new_triad h nm p =
     (case p of
        None \<Rightarrow> h @ [fresh_triad nm None]
      | Some q \<Rightarrow> h[q := (h ! q)\<lparr>children := children (h ! q) @ [length h]\<rparr>]
                   @ [fresh_triad nm (Some q)])"

subsection \<open>observe: the part that touches the node itself\<close>

text \<open>Lines 213 to 224: the counter, the window and the smoothed mean and variance.\<close>

definition track :: "triad \<Rightarrow> real \<Rightarrow> triad" where
  "track t v =
     (let n = count t + 1;
          ema = (if n = 1 then v else (1 - SIGMA_const) * v + SIGMA_const * self_ema t);
          emv = (if n = 1 then 0 else (1 - SIGMA_const) * (v - ema)\<^sup>2 + SIGMA_const * self_emv t)
      in t\<lparr>count := n,
           micro_buf := deque_append 64 (micro_buf t) v,
           micro_len := min (micro_len t + 1) 64,
           self_ema := ema,
           self_emv := emv\<rparr>)"

definition diffs :: "real list \<Rightarrow> real list" where
  "diffs recent = map (\<lambda>(a, b). b - a) (zip recent (tl recent))"

definition same_count :: "real list \<Rightarrow> nat" where
  "same_count ds = length (filter (\<lambda>(a, b). (a \<ge> 0) = (b \<ge> 0)) (zip ds (tl ds)))"

text \<open>Lines 232 to 243: the alignment term read off the window.\<close>

definition alignment :: "real list \<Rightarrow> real" where
  "alignment buf =
     (if length buf \<ge> 4 then
        (let ds = diffs (last_n 4 buf) in
         if list_all (\<lambda>d. d \<ge> 0) ds \<or> list_all (\<lambda>d. d \<le> 0) ds then 1
         else (real (same_count ds) + 1) / real (length ds))
      else 1 / 2)"

definition cv_of :: "triad \<Rightarrow> real" where
  "cv_of t = (if self_ema t > 0 then sqrt (self_emv t) / self_ema t else 1)"

text \<open>
  Lines 227 to 245: \<^verbatim>\<open>own_s_star\<close>, a local variable of \<^verbatim>\<open>observe\<close>, as a function of
  the node after \<open>track\<close>.
\<close>

definition own_s_star :: "triad \<Rightarrow> real" where
  "own_s_star t =
     (if micro_len t \<ge> 4 then s_star (1 / (1 + cv_of t)) (alignment (micro_buf t))
      else T_STAR)"

definition child_mean :: "(string \<times> real) list \<Rightarrow> real" where
  "child_mean d = sum_list (dict_values d) / real (length (dict_values d))"

text \<open>Lines 213 to 258: everything \<^verbatim>\<open>observe\<close> does before it reports to the parent.\<close>

definition observe_node :: "triad \<Rightarrow> real \<Rightarrow> triad" where
  "observe_node t v =
     (let t1 = track t v in
      if child_coherences t1 \<noteq> []
      then t1\<lparr>macro_s_star := (own_s_star t1 + child_mean (child_coherences t1) * C) / (1 + C)\<rparr>
      else t1\<lparr>macro_s_star := own_s_star t1\<rparr>)"

subsection \<open>The report of a child\<close>

text \<open>Lines 286 to 291: the own term that \<^verbatim>\<open>_receive_child_coherence\<close> uses.\<close>

definition own_s :: "triad \<Rightarrow> real" where
  "own_s t =
     (if self_ema t > 0 \<and> micro_len t \<ge> 4
      then s_star (1 / (1 + sqrt (self_emv t) / self_ema t)) (1 / 2)
      else T_STAR)"

text \<open>Lines 278 to 293: what a report changes in the node that receives it.\<close>

definition receive_node :: "triad \<Rightarrow> string \<Rightarrow> real \<Rightarrow> triad" where
  "receive_node t child_name child_s_star =
     (let t1 = t\<lparr>child_coherences := dict_set (child_coherences t) child_name child_s_star\<rparr> in
      if child_coherences t1 \<noteq> []
      then t1\<lparr>macro_s_star := (own_s t1 + child_mean (child_coherences t1) * C) / (1 + C)\<rparr>
      else t1)"

text \<open>
  \<^verbatim>\<open>_receive_child_coherence\<close> calls itself on the parent for as long as there is one.
  Nothing in the code bounds that chain, so the model is a partial function: \<open>None\<close>
  stands for a call that never returns.
\<close>

partial_function (option) receive_child_coherence ::
  "triad list \<Rightarrow> nat \<Rightarrow> string \<Rightarrow> real \<Rightarrow> triad list option" where
  "receive_child_coherence h i child_name child_s_star =
     (case parent (receive_node (h ! i) child_name child_s_star) of
        None \<Rightarrow> Some (h[i := receive_node (h ! i) child_name child_s_star])
      | Some p \<Rightarrow>
          receive_child_coherence (h[i := receive_node (h ! i) child_name child_s_star]) p
            (name (receive_node (h ! i) child_name child_s_star))
            (macro_s_star (receive_node (h ! i) child_name child_s_star)))"

definition observe :: "triad list \<Rightarrow> nat \<Rightarrow> real \<Rightarrow> triad list option" where
  "observe h i v =
     (case parent (observe_node (h ! i) v) of
        None \<Rightarrow> Some (h[i := observe_node (h ! i) v])
      | Some p \<Rightarrow>
          receive_child_coherence (h[i := observe_node (h ! i) v]) p
            (name (observe_node (h ! i) v)) (macro_s_star (observe_node (h ! i) v)))"

fun observes :: "triad list \<Rightarrow> (nat \<times> real) list \<Rightarrow> triad list option" where
  "observes h [] = Some h"
| "observes h ((i, v) # es) =
     (case observe h i v of None \<Rightarrow> None | Some h' \<Rightarrow> observes h' es)"

text \<open>
  What reaches a node from outside: a call of \<^verbatim>\<open>observe\<close>, or the report of a child.
\<close>

datatype event = Observe nat real | Report nat string real

fun happen :: "triad list \<Rightarrow> event \<Rightarrow> triad list option" where
  "happen h (Observe i v) = observe h i v"
| "happen h (Report i child_name child_s_star) =
     receive_child_coherence h i child_name child_s_star"

fun happens :: "triad list \<Rightarrow> event list \<Rightarrow> triad list option" where
  "happens h [] = Some h"
| "happens h (e # es) = (case happen h e of None \<Rightarrow> None | Some h' \<Rightarrow> happens h' es)"

section \<open>The Pulse\<close>

text \<open>
  A float as a constructor argument or a stored rate: a finite value, an infinity or
  NaN. Everywhere else a float is its real value.
\<close>

datatype pyfloat = Finite real | PosInf | NegInf | NaN

record pulse =
  target_ns :: int
  phase :: real
  ema_actual :: real
  ema_error :: real
  sigma_weight :: real
  fire_count :: nat
  lock_achieved :: bool
  natural_freq :: pyfloat
  coherence :: real
  history :: "int list"
  hist_len :: nat

text \<open>\<^verbatim>\<open>int(x)\<close> on a float truncates towards zero.\<close>

definition py_int :: "real \<Rightarrow> int" where
  "py_int x = (if x \<ge> 0 then \<lfloor>x\<rfloor> else \<lceil>x\<rceil>)"

text \<open>
  The largest double is \<open>2 ^ 1024 - 2 ^ 971\<close>; a quotient whose exact value is at
  \<open>2 ^ 1024 - 2 ^ 970\<close> or beyond, in magnitude, rounds to an infinity.
\<close>

definition overflows :: "real \<Rightarrow> bool" where
  "overflows q = (\<bar>q\<bar> \<ge> 2 ^ 1024 - 2 ^ 970)"

text \<open>The fields of a new Pulse, given the rate and \<^verbatim>\<open>int(1e9 / target_hz)\<close>.\<close>

definition new_pulse :: "pyfloat \<Rightarrow> int \<Rightarrow> pulse" where
  "new_pulse target_hz ns =
     \<lparr>target_ns = ns, phase = 0, ema_actual = of_int ns, ema_error = 0,
      sigma_weight = SIGMA_const, fire_count = 0, lock_achieved = False,
      natural_freq = target_hz, coherence = T_STAR, history = [], hist_len = 0\<rparr>"

text \<open>
  \<^verbatim>\<open>Pulse.__init__\<close>. The code checks nothing about the rate; what can fail is the
  first line, \<^verbatim>\<open>int(1e9 / target_hz)\<close>. The division raises ZeroDivisionError for a
  zero rate; \<^verbatim>\<open>int\<close> raises ValueError for NaN, which is what the quotient is for a
  NaN rate, and OverflowError for an infinity, which is what the quotient is when it
  leaves the range of the doubles. For an infinite rate the quotient is zero.
\<close>

fun Pulse_init :: "pyfloat \<Rightarrow> py_error + pulse" where
  "Pulse_init NaN = Inl ValueError"
| "Pulse_init PosInf = Inr (new_pulse PosInf 0)"
| "Pulse_init NegInf = Inr (new_pulse NegInf 0)"
| "Pulse_init (Finite hz) =
     (if hz = 0 then Inl ZeroDivisionError
      else if overflows (10 ^ 9 / hz) then Inl OverflowError
      else Inr (new_pulse (Finite hz) (py_int (10 ^ 9 / hz))))"

text \<open>The dictionary that \<^verbatim>\<open>wait\<close> returns, one field per key.\<close>

record wait_data =
  d_ns :: int
  d_error_ns :: int
  d_phase :: real
  d_coherence :: real
  d_locked :: bool
  d_fire :: nat

text \<open>Lines 112 and 113: the length of the spin-wait.\<close>

definition adjusted_ns :: "pulse \<Rightarrow> real" where
  "adjusted_ns p =
     max 100 (ema_actual p - of_int (py_int (ema_error p * (1 - sigma_weight p))))"

text \<open>
  The clock is the environment: \<open>actual_ns\<close> is the \<^verbatim>\<open>t_end - t_start\<close> that the
  spin-wait measured. Lines 123 to 132 fold it into the moving averages and the history.
\<close>

definition measured :: "pulse \<Rightarrow> int \<Rightarrow> pulse" where
  "measured p actual_ns =
     p\<lparr>ema_actual := (1 - sigma_weight p) * of_int actual_ns + sigma_weight p * ema_actual p,
       ema_error := (1 - sigma_weight p) * of_int (actual_ns - target_ns p)
                      + sigma_weight p * ema_error p,
       history := deque_append 256 (history p) actual_ns,
       hist_len := min (hist_len p + 1) 256\<rparr>"

text \<open>Lines 136 to 139, on the sixteen most recent samples.\<close>

definition pulse_vitality :: "int list \<Rightarrow> real" where
  "pulse_vitality recent =
     (let mu = of_int (sum_list recent) / real (length recent);
          var = sum_list (map (\<lambda>x. (of_int x - mu)\<^sup>2) recent) / real (length recent);
          cv = (if mu > 0 then sqrt var / mu else 1)
      in 1 / (1 + cv))"

text \<open>Lines 150 to 160: the phase advances and the call returns its data.\<close>

definition fired :: "pulse \<Rightarrow> int \<Rightarrow> pulse \<times> (py_error + wait_data)" where
  "fired p actual_ns =
     (let p' = p\<lparr>fire_count := fire_count p + 1, phase := frac (phase p + 1 / 10)\<rparr>
      in (p', Inr \<lparr>d_ns = actual_ns, d_error_ns = actual_ns - target_ns p,
                    d_phase = phase p', d_coherence = coherence p',
                    d_locked = lock_achieved p', d_fire = fire_count p'\<rparr>))"

text \<open>
  \<^verbatim>\<open>Pulse.wait\<close>. The result pairs the object as the call leaves it with either the
  returned data or the exception: a division by zero leaves the fields written before
  it in place.
\<close>

definition wait :: "pulse \<Rightarrow> int \<Rightarrow> pulse \<times> (py_error + wait_data)" where
  "wait p actual_ns =
     (let p1 = measured p actual_ns in
      if hist_len p1 \<ge> 16 then
        (if target_ns p1 = 0 \<or> 1 + \<bar>ema_error p1\<bar> / of_int (target_ns p1) = 0
         then (p1, Inl ZeroDivisionError)
         else
           (let p2 = p1\<lparr>coherence :=
                        s_star (pulse_vitality (last_n 16 (history p1)))
                          (1 / (1 + \<bar>ema_error p1\<bar> / of_int (target_ns p1)))\<rparr>
            in if coherence p2 \<ge> T_STAR \<and> \<not> lock_achieved p2 then
                 (if ema_actual p2 = 0
                  then (p2\<lparr>lock_achieved := True\<rparr>, Inl ZeroDivisionError)
                  else fired (p2\<lparr>lock_achieved := True,
                                  natural_freq := Finite (10 ^ 9 / ema_actual p2)\<rparr>) actual_ns)
               else fired p2 actual_ns))
      else fired p1 actual_ns)"

text \<open>A sequence of calls on one Pulse; a caller that catches an exception goes on.\<close>

fun waits :: "pulse \<Rightarrow> int list \<Rightarrow> pulse" where
  "waits p [] = p"
| "waits p (a # as) = waits (fst (wait p a)) as"

section \<open>The LatticeRuntime\<close>

record runtime =
  pulse :: pulse
  triads :: "triad list"
  root_triad :: nat
  epoch :: nat
  domains :: "(string \<times> nat) list"
  micro_triads :: "(string \<times> nat) list"
  spine :: "real list"
  spine_phase :: nat
  ops_total :: nat
  ops_by_domain :: "(string \<times> nat) list"
  running :: bool
  epoch_count :: nat

definition DOMAINS :: "string list" where
  "DOMAINS = [''compute'', ''memory'', ''io'', ''net'']"

text \<open>\<^verbatim>\<open>str.upper\<close> on the ASCII letters, which is all the domain names hold.\<close>

definition upper_char :: "char \<Rightarrow> char" where
  "upper_char c =
     (case map_of (zip ''abcdefghijklmnopqrstuvwxyz'' ''ABCDEFGHIJKLMNOPQRSTUVWXYZ'') c of
        None \<Rightarrow> c
      | Some u \<Rightarrow> u)"

definition upper :: "string \<Rightarrow> string" where
  "upper s = map upper_char s"

text \<open>Lines 362 and 363: one Triad per domain under the epoch.\<close>

fun make_domains ::
  "triad list \<Rightarrow> nat \<Rightarrow> string list \<Rightarrow> (string \<times> nat) list
     \<Rightarrow> triad list \<times> (string \<times> nat) list" where
  "make_domains h ep [] ds = (h, ds)"
| "make_domains h ep (d # rest) ds =
     make_domains (new_triad h (upper d) (Some ep)) ep rest (dict_set ds d (length h))"

text \<open>
  Lines 367 to 370: one micro Triad under each domain Triad. The lookup
  \<^verbatim>\<open>self.domains[domain]\<close> is \<open>map_of ds d\<close>; it finds every name, since the loop
  before has stored them all (lemma \<open>domains_lookup\<close>).
\<close>

fun make_micros ::
  "triad list \<Rightarrow> (string \<times> nat) list \<Rightarrow> string list \<Rightarrow> (string \<times> nat) list
     \<Rightarrow> triad list \<times> (string \<times> nat) list" where
  "make_micros h ds [] ms = (h, ms)"
| "make_micros h ds (d # rest) ms =
     make_micros (new_triad h (d @ ''_micro'') (map_of ds d)) ds rest (dict_set ms d (length h))"

text \<open>Lines 356 to 381: the constructor after the Pulse exists.\<close>

definition build :: "pulse \<Rightarrow> runtime" where
  "build p =
     (let h0 = new_triad [] ''SYSTEM'' None;
          h1 = new_triad h0 ''EPOCH'' (Some 0);
          (h2, ds) = make_domains h1 1 DOMAINS [];
          (h3, ms) = make_micros h2 ds DOMAINS []
      in \<lparr>pulse = p, triads = h3, root_triad = 0, epoch = 1, domains = ds,
           micro_triads = ms, spine = replicate 10 T_STAR, spine_phase = 0,
           ops_total = 0, ops_by_domain = map (\<lambda>d. (d, 0)) DOMAINS, running = False,
           epoch_count = 0\<rparr>)"

definition LatticeRuntime_init :: "pyfloat \<Rightarrow> py_error + runtime" where
  "LatticeRuntime_init pulse_hz =
     (case Pulse_init pulse_hz of Inl e \<Rightarrow> Inl e | Inr p \<Rightarrow> Inr (build p))"

text \<open>
  Lines 397 to 417: the operator of stage \<open>i\<close>. \<open>g\<close> is the sample that
  \<^verbatim>\<open>random.gauss(0, 0.001)\<close> returns, \<open>fc\<close> the fire count of the Pulse.
\<close>

definition spine_operator :: "nat \<Rightarrow> real \<Rightarrow> real \<Rightarrow> real list \<Rightarrow> real \<Rightarrow> nat \<Rightarrow> real" where
  "spine_operator i old prev sp g fc =
     (if i = 0 then prev * (1 - SIGMA_const) * (1 / 10)
      else if i = 1 then old * SIGMA_const + prev * (1 - SIGMA_const)
      else if i = 2 then \<bar>old - prev\<bar> * SIGMA_const + old * (1 - SIGMA_const)
      else if i = 3 then old + (1 - old) * (1 - SIGMA_const)
      else if i = 4 then old * SIGMA_const
      else if i = 5 then (old + sum_list sp / 10) / 2
      else if i = 6 then old * SIGMA_const + g
      else if i = 7 then sqrt (max (1 / 1000) (old * prev))
      else if i = 8 then old * (1 + (5 / 1000) * sin (real fc * (1 / 10)))
      else if i = 9 then old * SIGMA_const + T_STAR * (1 - SIGMA_const)
      else old)"

text \<open>
  \<^verbatim>\<open>_advance_spine\<close>. Reading \<^verbatim>\<open>self.spine[...]\<close> past the end of the list raises
  IndexError.
\<close>

definition advance_spine :: "real \<Rightarrow> runtime \<Rightarrow> py_error + runtime" where
  "advance_spine g rt =
     (let i = spine_phase rt; sp = spine rt; k = nat ((int i - 1) mod 10) in
      if length sp \<le> k \<or> length sp \<le> i then Inl IndexError
      else
        (let v = spine_operator i (sp ! i) (sp ! k) sp g (fire_count (pulse rt));
             ph = (i + 1) mod 10
         in Inr (rt\<lparr>spine := sp[i := max (1 / 1000) (min 1 v)],
                    spine_phase := ph,
                    epoch_count := (if ph = 0 then epoch_count rt + 1 else epoch_count rt)\<rparr>)))"

fun advance_spines :: "real list \<Rightarrow> runtime \<Rightarrow> py_error + runtime" where
  "advance_spines [] rt = Inr rt"
| "advance_spines (g # gs) rt =
     (case advance_spine g rt of Inl e \<Rightarrow> Inl e | Inr rt' \<Rightarrow> advance_spines gs rt')"

text \<open>
  What \<^verbatim>\<open>op\<close> can raise: an exception of the interpreter, or whatever \<^verbatim>\<open>work\<close>
  raised.
\<close>

datatype 'e raised = Builtin py_error | Raised 'e

text \<open>Lines 456 to 462: a Triad is fed only when the dictionary has the domain.\<close>

definition feed ::
  "(string \<times> nat) list \<Rightarrow> string \<Rightarrow> real \<Rightarrow> triad list \<Rightarrow> triad list option" where
  "feed d domain v h = (case map_of d domain of None \<Rightarrow> Some h | Some a \<Rightarrow> observe h a v)"

text \<open>
  \<^verbatim>\<open>LatticeRuntime.op\<close>. The callable is its outcome (\<open>Inl\<close> what it raised, \<open>Inr\<close>
  what it returned) and \<open>elapsed_ns\<close>, the \<^verbatim>\<open>t1 - t0\<close> around it; it is taken not to
  touch the runtime itself. The result pairs the runtime as the call leaves it with the
  exception or the returned value; \<open>None\<close> is a call that never returns.
\<close>

definition op ::
  "runtime \<Rightarrow> string \<Rightarrow> 'e + 'a \<Rightarrow> int \<Rightarrow> real \<Rightarrow> (runtime \<times> ('e raised + 'a)) option" where
  "op rt domain work elapsed_ns g =
     (let rt1 = rt\<lparr>ops_total := ops_total rt + 1,
                   ops_by_domain := dict_set (ops_by_domain rt) domain
                                      (dict_get (ops_by_domain rt) domain 0 + 1)\<rparr>
      in if length (spine rt1) \<le> spine_phase rt1 then Some (rt1, Inl (Builtin IndexError))
         else
           (case work of
              Inl e \<Rightarrow> Some (rt1, Inl (Raised e))
            | Inr result \<Rightarrow>
                (case feed (micro_triads rt1) domain (of_int elapsed_ns / 1000) (triads rt1) of
                   None \<Rightarrow> None
                 | Some h1 \<Rightarrow>
                     (case feed (domains rt1) domain
                             (of_int elapsed_ns / 1000 * (spine rt1 ! spine_phase rt1)) h1 of
                        None \<Rightarrow> None
                      | Some h2 \<Rightarrow>
                          (case advance_spine g (rt1\<lparr>triads := h2\<rparr>) of
                             Inl e \<Rightarrow> Some (rt1\<lparr>triads := h2\<rparr>, Inl (Builtin e))
                           | Inr rt2 \<Rightarrow> Some (rt2, Inr result))))))"

section \<open>Invariants of the store\<close>

text \<open>
  \<^verbatim>\<open>Triad.__init__\<close> takes its parent as an object that already exists and nothing
  ever reassigns \<^verbatim>\<open>parent\<close>, so a parent's address is below its child's.
\<close>

definition well_linked :: "triad list \<Rightarrow> bool" where
  "well_linked h = (\<forall>i<length h. case parent (h ! i) of None \<Rightarrow> True | Some p \<Rightarrow> p < i)"

definition unit_scores :: "(string \<times> real) list \<Rightarrow> bool" where
  "unit_scores d = list_all (\<lambda>(k, s). 0 \<le> s \<and> s \<le> 1) d"

definition triad_ok :: "triad \<Rightarrow> bool" where
  "triad_ok t = (0 \<le> self_emv t \<and> 0 \<le> macro_s_star t \<and> macro_s_star t \<le> 1
     \<and> unit_scores (child_coherences t))"

definition bounded :: "triad list \<Rightarrow> bool" where
  "bounded h = list_all triad_ok h"

text \<open>
  An event is addressed to a node of the store, and a report carries the
  \<^verbatim>\<open>macro_s_star\<close> of a child, which is a score in \<open>[0, 1]\<close>.
\<close>

fun admissible :: "nat \<Rightarrow> event \<Rightarrow> bool" where
  "admissible n (Observe i v) = (i < n)"
| "admissible n (Report i child_name child_s_star) =
     (i < n \<and> 0 \<le> child_s_star \<and> child_s_star \<le> 1)"

text \<open>A root and one child, as the constructor builds them.\<close>

definition pair0 :: "triad list" where
  "pair0 = new_triad (new_triad [] ''SYSTEM'' None) ''EPOCH'' (Some 0)"

section \<open>Invariants and sample states of the runtime\<close>

text \<open>
  What the constructor establishes and \<^verbatim>\<open>op\<close> and \<^verbatim>\<open>_advance_spine\<close> keep: both
  dictionaries are keyed by the fixed domain names, the spine has its ten stages and
  the stage counter points at one of them.
\<close>

definition runtime_ok :: "runtime \<Rightarrow> bool" where
  "runtime_ok rt = (map fst (domains rt) = DOMAINS \<and> map fst (micro_triads rt) = DOMAINS
      \<and> length (spine rt) = 10 \<and> spine_phase rt < 10)"

text \<open>The Pulse that \<^verbatim>\<open>Pulse(1000.0)\<close> builds, and the one that \<^verbatim>\<open>Pulse(-1.0)\<close> builds.\<close>

definition pulse_1khz :: pulse where
  "pulse_1khz = \<lparr>target_ns = 1000000, phase = 0, ema_actual = 1000000, ema_error = 0,
     sigma_weight = SIGMA_const, fire_count = 0, lock_achieved = False,
     natural_freq = Finite 1000,
     coherence = T_STAR, history = [], hist_len = 0\<rparr>"

definition pulse_neg :: pulse where
  "pulse_neg = \<lparr>target_ns = - 1000000000, phase = 0, ema_actual = - 1000000000, ema_error = 0,
     sigma_weight = SIGMA_const, fire_count = 0, lock_achieved = False,
     natural_freq = Finite (- 1),
     coherence = T_STAR, history = [], hist_len = 0\<rparr>"

text \<open>
  What holds of a Pulse from its construction on, whatever the clock measures: the
  smoothed error is the smoothed interval less the target.
\<close>

definition pulse_inv :: "pulse \<Rightarrow> bool" where
  "pulse_inv p = (ema_error p = ema_actual p - of_int (target_ns p))"

text \<open>A Pulse at 1 kHz after fifteen calls that each took exactly the target interval.\<close>

definition steady15 :: pulse where
  "steady15 = waits pulse_1khz (replicate 15 1000000)"

text \<open>
  What \<^verbatim>\<open>observe\<close> keeps true of a node from its construction on: the variance
  estimate is not negative, and the window and its length follow the counter.
\<close>

definition consistent :: "triad \<Rightarrow> bool" where
  "consistent t = (0 \<le> self_emv t \<and> micro_len t = min (count t) 64
     \<and> length (micro_buf t) = micro_len t)"

text \<open>A grandparent, a node and its child, as the constructor builds them.\<close>

definition chain3 :: "triad list" where
  "chain3 = new_triad (new_triad (new_triad [] ''G'' None) ''N'' (Some 0)) ''C'' (Some 1)"

text \<open>The middle node of that chain after four observations of the value 1.\<close>

definition four_ones :: triad where
  "four_ones = \<lparr>name = ''N'', micro_buf = [1, 1, 1, 1], micro_len = 4, self_ema = 1,
     self_emv = 0, macro_s_star = 982081 / 1000000, count = 4, parent = Some 0,
     children = [2], child_coherences = []\<rparr>"

text \<open>A parentless node after the observations 1, 2, 1, 2.\<close>

definition zigzag :: triad where
  "zigzag = foldl observe_node (fresh_triad ''A'' None) [1, 2, 1, 2]"

section \<open>The own score in the words of the specification\<close>

text \<open>
  The specification's sentence, for comparison with \<open>own_s_star\<close>: with fewer than 4
  samples the score is \<open>T_STAR\<close>; otherwise vitality is \<open>1 / (1 + cv)\<close> with
  \<open>cv = sqrt variance / mean\<close>, alignment is 1 when the last 4 observations are all
  non-decreasing or all non-increasing and else the fraction of adjacent pairs of the
  recent differences that agree in sign, and the score is
  \<open>\<sigma> \<cdot> vitality \<cdot> alignment\<close> clamped to \<open>[0, 1]\<close>.
\<close>

definition spec_monotonic :: "real list \<Rightarrow> bool" where
  "spec_monotonic w = (sorted w \<or> sorted (rev w))"

definition spec_alignment :: "real list \<Rightarrow> real" where
  "spec_alignment buf =
     (let w = last_n 4 buf; ds = diffs w in
      if spec_monotonic w then 1 else real (same_count ds) / real (length ds - 1))"

definition spec_own_score :: "triad \<Rightarrow> real" where
  "spec_own_score t =
     (if count t < 4 then T_STAR
      else max 0 (min 1 (SIGMA_const * (1 / (1 + sqrt (self_emv t) / self_ema t))
                           * spec_alignment (micro_buf t))))"

section \<open>Properties of the Triad\<close>

subsection \<open>Scores stay in the unit interval\<close>

lemma FACTOR_bounds: "0 \<le> FACTOR" "FACTOR \<le> 1"
  by (simp_all add: FACTOR_def SIGMA_const_def SIGMA_STAR_def)

lemma T_STAR_bounds: "0 \<le> T_STAR" "T_STAR \<le> 1"
  by (simp_all add: T_STAR_def)

lemma s_star_bounds:
  assumes "0 \<le> V" "V \<le> 1" "0 \<le> A" "A \<le> 1"
  shows "0 \<le> s_star V A" "s_star V A \<le> 1"
proof -
  have va: "0 \<le> V * A" "V * A \<le> 1"
    using assms by (simp_all add: mult_le_one)
  show "0 \<le> s_star V A"
    using FACTOR_bounds(1) va(1) by (simp add: s_star_def mult.assoc)
  have "FACTOR * (V * A) \<le> 1"
    using FACTOR_bounds va by (simp add: mult_le_one)
  then show "s_star V A \<le> 1"
    by (simp add: s_star_def mult.assoc)
qed

lemma same_count_le: "same_count ds \<le> length ds - 1"
proof -
  have "same_count ds \<le> length (zip ds (tl ds))"
    unfolding same_count_def by (rule length_filter_le)
  then show ?thesis by simp
qed

lemma alignment_bounds: "0 \<le> alignment buf" "alignment buf \<le> 1"
proof -
  have "0 \<le> (real (same_count ds) + 1) / real (length ds)" for ds
    by simp
  then show "0 \<le> alignment buf"
    by (simp add: alignment_def Let_def)
  have "(real (same_count ds) + 1) / real (length ds) \<le> 1" for ds
  proof (cases "ds = []")
    case True
    then show ?thesis by simp
  next
    case False
    then have "0 < length ds" by simp
    with same_count_le [of ds] have "real (same_count ds) + 1 \<le> real (length ds)"
      by linarith
    with \<open>0 < length ds\<close> show ?thesis by (simp add: divide_le_eq)
  qed
  then show "alignment buf \<le> 1"
    by (simp add: alignment_def Let_def)
qed

lemma vitality_bounds:
  assumes "0 \<le> c"
  shows "0 \<le> 1 / (1 + c)" "1 / (1 + c) \<le> (1::real)"
  using assms by (simp_all add: divide_le_eq)

lemma cv_of_nonneg: "0 \<le> self_emv t \<Longrightarrow> 0 \<le> cv_of t"
  by (simp add: cv_of_def)

lemma own_s_star_bounds:
  assumes "0 \<le> self_emv t"
  shows "0 \<le> own_s_star t" "own_s_star t \<le> 1"
  using s_star_bounds [OF vitality_bounds [OF cv_of_nonneg [OF assms]]
      alignment_bounds [of "micro_buf t"]] T_STAR_bounds
  by (simp_all add: own_s_star_def)

lemma own_s_bounds:
  assumes "0 \<le> self_emv t"
  shows "0 \<le> own_s t" "own_s t \<le> 1"
proof -
  have c: "0 \<le> sqrt (self_emv t) / self_ema t" if "self_ema t > 0"
    using assms that by simp
  have h: "(0::real) \<le> 1 / 2" "(1::real) / 2 \<le> 1" by simp_all
  show "0 \<le> own_s t"
    using s_star_bounds(1) [OF vitality_bounds [OF c] h] T_STAR_bounds
    by (simp add: own_s_def)
  show "own_s t \<le> 1"
    using s_star_bounds(2) [OF vitality_bounds [OF c] h] T_STAR_bounds
    by (simp add: own_s_def)
qed

lemma unit_scores_dict_set:
  "unit_scores d \<Longrightarrow> 0 \<le> s \<Longrightarrow> s \<le> 1 \<Longrightarrow> unit_scores (dict_set d k s)"
  by (induction d) (auto simp: unit_scores_def)

lemma dict_set_nonempty: "dict_set d k s \<noteq> []"
  by (cases d) (auto split: if_splits)

lemma sum_list_unit:
  "unit_scores d \<Longrightarrow> 0 \<le> sum_list (map snd d) \<and> sum_list (map snd d) \<le> real (length d)"
  by (induction d) (auto simp: unit_scores_def)

lemma child_mean_bounds:
  assumes "unit_scores d" "d \<noteq> []"
  shows "0 \<le> child_mean d" "child_mean d \<le> 1"
  using sum_list_unit [OF assms(1)] assms(2)
  by (simp_all add: child_mean_def dict_values_def divide_le_eq)

lemma receive_node_frame [simp]:
  "parent (receive_node t n s) = parent t"
  "name (receive_node t n s) = name t"
  "count (receive_node t n s) = count t"
  "micro_buf (receive_node t n s) = micro_buf t"
  "micro_len (receive_node t n s) = micro_len t"
  "self_ema (receive_node t n s) = self_ema t"
  "self_emv (receive_node t n s) = self_emv t"
  "children (receive_node t n s) = children t"
  "child_coherences (receive_node t n s) = dict_set (child_coherences t) n s"
  by (simp_all add: receive_node_def Let_def)

lemma observe_node_frame [simp]:
  "parent (observe_node t v) = parent t"
  "name (observe_node t v) = name t"
  "count (observe_node t v) = count t + 1"
  "children (observe_node t v) = children t"
  "child_coherences (observe_node t v) = child_coherences t"
  by (simp_all add: observe_node_def track_def Let_def)

lemma well_linked_update:
  assumes "well_linked h" "parent t = parent (h ! i)"
  shows "well_linked (h[i := t])"
proof (cases "i < length h")
  case True
  with assms show ?thesis
    by (auto simp: well_linked_def nth_list_update)
next
  case False
  then have "h[i := t] = h" by (simp add: list_update_beyond)
  with assms(1) show ?thesis by simp
qed

lemma well_linked_parent:
  "well_linked h \<Longrightarrow> i < length h \<Longrightarrow> parent (h ! i) = Some p \<Longrightarrow> p < i"
  by (auto simp: well_linked_def split: option.splits)

text \<open>
  On a well-linked store the chain of reports ends: the call returns, it keeps every
  property of the nodes that one report keeps, and it leaves alone every node at or
  above the receiver's address except the receiver.
\<close>

lemma receive_child_coherence_returns:
  assumes step: "\<And>t n s. P t \<Longrightarrow> Q s \<Longrightarrow>
     P (receive_node t n s) \<and> Q (macro_s_star (receive_node t n s))"
  shows "well_linked h \<Longrightarrow> i < length h \<Longrightarrow> \<forall>j<length h. P (h ! j) \<Longrightarrow> Q s \<Longrightarrow>
     \<exists>h'. receive_child_coherence h i n s = Some h' \<and> length h' = length h \<and> well_linked h'
       \<and> (\<forall>j<length h. P (h' ! j)) \<and> h' ! i = receive_node (h ! i) n s
       \<and> (\<forall>j. i < j \<longrightarrow> h' ! j = h ! j)"
proof (induction i arbitrary: h n s rule: less_induct)
  case (less i)
  define t where "t = receive_node (h ! i) n s"
  define h1 where "h1 = h[i := t]"
  have wl1: "well_linked h1"
    unfolding h1_def using less.prems(1) by (rule well_linked_update) (simp add: t_def)
  have Pt: "P t" "Q (macro_s_star t)"
    using step [of "h ! i" s n] less.prems by (simp_all add: t_def)
  have P1: "\<forall>j<length h1. P (h1 ! j)"
    using less.prems(2,3) Pt(1) by (simp add: h1_def nth_list_update)
  have len1: "length h1 = length h" by (simp add: h1_def)
  have at1: "h1 ! i = t" using less.prems(2) by (simp add: h1_def)
  show ?case
  proof (cases "parent (h ! i)")
    case None
    then have "receive_child_coherence h i n s = Some h1"
      by (subst receive_child_coherence.simps) (simp add: h1_def t_def)
    with wl1 P1 len1 at1 show ?thesis
      by (simp add: t_def h1_def)
  next
    case (Some p)
    then have eq: "receive_child_coherence h i n s
        = receive_child_coherence h1 p (name t) (macro_s_star t)"
      by (subst receive_child_coherence.simps) (simp add: h1_def t_def)
    have pi: "p < i"
      using well_linked_parent [OF less.prems(1,2) Some] .
    then have "p < length h1" using less.prems(2) len1 by simp
    from less.IH [OF pi wl1 this P1 Pt(2), of "name t"]
    obtain h' where h': "receive_child_coherence h1 p (name t) (macro_s_star t) = Some h'"
      "length h' = length h1" "well_linked h'" "\<forall>j<length h1. P (h' ! j)"
      "\<forall>j. p < j \<longrightarrow> h' ! j = h1 ! j"
      by blast
    have "h' ! i = receive_node (h ! i) n s"
      using h'(5) pi at1 by (simp add: t_def)
    moreover have "\<forall>j. i < j \<longrightarrow> h' ! j = h ! j"
      using h'(5) pi by (simp add: h1_def)
    ultimately show ?thesis
      using eq h' len1 by simp
  qed
qed

lemma track_emv_nonneg: "0 \<le> self_emv t \<Longrightarrow> 0 \<le> self_emv (track t v)"
  by (simp add: track_def Let_def SIGMA_const_def)

lemma track_frame [simp]:
  "child_coherences (track t v) = child_coherences t"
  "parent (track t v) = parent t"
  by (simp_all add: track_def Let_def)

lemma own_s_star_macro [simp]: "own_s_star (t\<lparr>macro_s_star := m\<rparr>) = own_s_star t"
  by (simp add: own_s_star_def cv_of_def)

lemma own_s_macro [simp]: "own_s (t\<lparr>macro_s_star := m\<rparr>) = own_s t"
  by (simp add: own_s_def)

lemma own_s_coherences [simp]: "own_s (t\<lparr>child_coherences := d\<rparr>) = own_s t"
  by (simp add: own_s_def)

lemma blend_bounds:
  assumes "0 \<le> a" "a \<le> 1" "0 \<le> b" "b \<le> 1"
  shows "0 \<le> (a + b * C) / (1 + C)" "(a + b * C) / (1 + C) \<le> 1"
  using assms by (simp_all add: C_def)

lemma observe_node_ok:
  assumes "triad_ok t"
  shows "triad_ok (observe_node t v)"
proof -
  define t1 where "t1 = track t v"
  have emv: "0 \<le> self_emv t1"
    using assms by (simp add: t1_def triad_ok_def track_emv_nonneg)
  have us: "unit_scores (child_coherences t1)"
    using assms by (simp add: t1_def triad_ok_def)
  note own = own_s_star_bounds [OF emv]
  show ?thesis
  proof (cases "child_coherences t1 = []")
    case True
    then show ?thesis
      using emv us own by (simp add: observe_node_def Let_def t1_def [symmetric] triad_ok_def)
  next
    case False
    note cm = child_mean_bounds [OF us False]
    show ?thesis
      using False emv us blend_bounds [OF own cm]
      by (simp add: observe_node_def Let_def t1_def [symmetric] triad_ok_def)
  qed
qed

lemma receive_node_ok:
  assumes "triad_ok t" "0 \<le> s" "s \<le> 1"
  shows "triad_ok (receive_node t n s)"
proof -
  define d where "d = dict_set (child_coherences t) n s"
  have emv: "0 \<le> self_emv t" using assms(1) by (simp add: triad_ok_def)
  have us: "unit_scores d"
    unfolding d_def using assms by (simp add: triad_ok_def unit_scores_dict_set)
  have ne: "d \<noteq> []" by (simp add: d_def dict_set_nonempty)
  show ?thesis
    using emv us ne blend_bounds [OF own_s_bounds [OF emv] child_mean_bounds [OF us ne]]
    by (simp add: receive_node_def Let_def d_def [symmetric] triad_ok_def)
qed

lemma bounded_nth: "bounded h = (\<forall>j<length h. triad_ok (h ! j))"
  by (simp add: bounded_def list_all_length)

lemma receive_child_coherence_bounded:
  assumes "well_linked h" "i < length h" "bounded h" "0 \<le> s" "s \<le> 1"
  shows "\<exists>h'. receive_child_coherence h i n s = Some h' \<and> length h' = length h
           \<and> well_linked h' \<and> bounded h'"
proof -
  have step: "triad_ok t \<Longrightarrow> 0 \<le> s \<and> s \<le> 1 \<Longrightarrow>
      triad_ok (receive_node t n s)
      \<and> (0 \<le> macro_s_star (receive_node t n s) \<and> macro_s_star (receive_node t n s) \<le> 1)"
    for t n s
    using receive_node_ok [of t s n] by (simp add: triad_ok_def)
  have "\<forall>j<length h. triad_ok (h ! j)" "0 \<le> s \<and> s \<le> 1"
    using assms by (simp_all add: bounded_nth)
  from receive_child_coherence_returns
         [of triad_ok "\<lambda>s. 0 \<le> s \<and> s \<le> 1", OF step assms(1,2) this, of n]
  show ?thesis
    by (auto simp: bounded_nth)
qed

lemma observe_bounded:
  assumes "well_linked h" "i < length h" "bounded h"
  shows "\<exists>h'. observe h i v = Some h' \<and> length h' = length h \<and> well_linked h' \<and> bounded h'"
proof -
  define t where "t = observe_node (h ! i) v"
  define h1 where "h1 = h[i := t]"
  have ok: "triad_ok t"
    using assms(2,3) by (simp add: t_def bounded_nth observe_node_ok)
  have wl1: "well_linked h1"
    unfolding h1_def using assms(1) by (rule well_linked_update) (simp add: t_def)
  have b1: "bounded h1"
    using assms(2,3) ok by (simp add: bounded_nth h1_def nth_list_update)
  show ?thesis
  proof (cases "parent (h ! i)")
    case None
    then have "observe h i v = Some h1"
      by (simp add: observe_def h1_def t_def)
    with wl1 b1 show ?thesis by (simp add: h1_def)
  next
    case (Some p)
    then have eq: "observe h i v = receive_child_coherence h1 p (name t) (macro_s_star t)"
      by (simp add: observe_def h1_def t_def)
    have "p < length h1"
      using well_linked_parent [OF assms(1,2) Some] assms(2) by (simp add: h1_def)
    from receive_child_coherence_bounded [OF wl1 this b1, of "macro_s_star t" "name t"] ok
    show ?thesis
      by (simp add: eq triad_ok_def h1_def)
  qed
qed

lemma happen_bounded:
  assumes "well_linked h" "bounded h" "admissible (length h) e"
  shows "\<exists>h'. happen h e = Some h' \<and> length h' = length h \<and> well_linked h' \<and> bounded h'"
proof (cases e)
  case (Observe i v)
  with assms observe_bounded [of h i v] show ?thesis by simp
next
  case (Report i n s)
  with assms receive_child_coherence_bounded [of h i s n] show ?thesis by simp
qed

lemma happens_bounded:
  "well_linked h \<Longrightarrow> bounded h \<Longrightarrow> list_all (admissible (length h)) es \<Longrightarrow>
     \<exists>h'. happens h es = Some h' \<and> length h' = length h \<and> well_linked h' \<and> bounded h'"
proof (induction es arbitrary: h)
  case Nil
  then show ?case by simp
next
  case (Cons e es)
  from Cons.prems(3) have e: "admissible (length h) e" "list_all (admissible (length h)) es"
    by simp_all
  from happen_bounded [OF Cons.prems(1,2) e(1)]
  obtain h1 where h1: "happen h e = Some h1" "length h1 = length h" "well_linked h1" "bounded h1"
    by blast
  from e(2) h1(2) have "list_all (admissible (length h1)) es" by simp
  from Cons.IH [OF h1(3,4) this] h1(1,2) show ?case by simp
qed

lemma well_linked_empty: "well_linked []" "bounded []"
  by (simp_all add: well_linked_def bounded_def)

lemma fresh_triad_ok: "triad_ok (fresh_triad nm p)"
  by (simp add: triad_ok_def fresh_triad_def unit_scores_def T_STAR_def)

lemma new_triad_linked:
  assumes "well_linked h" "case p of None \<Rightarrow> True | Some q \<Rightarrow> q < length h"
  shows "well_linked (new_triad h nm p)"
proof (cases p)
  case None
  with assms(1) show ?thesis
    by (auto simp: new_triad_def well_linked_def fresh_triad_def nth_append)
next
  case (Some q)
  with assms(2) have q: "q < length h" by simp
  have "well_linked (h[q := (h ! q)\<lparr>children := children (h ! q) @ [length h]\<rparr>])"
    using assms(1) by (rule well_linked_update) simp
  with q Some show ?thesis
    by (auto simp: new_triad_def well_linked_def fresh_triad_def nth_append)
qed

lemma new_triad_bounded:
  assumes "bounded h"
  shows "bounded (new_triad h nm p)"
proof (cases p)
  case None
  with assms fresh_triad_ok [of nm None] show ?thesis
    by (simp add: new_triad_def bounded_def)
next
  case (Some q)
  show ?thesis
  proof (cases "q < length h")
    case True
    with assms have "triad_ok (h ! q)" by (simp add: bounded_nth)
    then have "triad_ok ((h ! q)\<lparr>children := children (h ! q) @ [length h]\<rparr>)"
      by (simp add: triad_ok_def)
    with assms True Some fresh_triad_ok [of nm "Some q"] show ?thesis
      by (auto simp: new_triad_def bounded_def list_all_length nth_list_update nth_append)
  next
    case False
    then have "h[q := (h ! q)\<lparr>children := children (h ! q) @ [length h]\<rparr>] = h"
      by (simp add: list_update_beyond)
    with assms Some fresh_triad_ok [of nm "Some q"] show ?thesis
      by (simp add: new_triad_def bounded_def)
  qed
qed

lemma pair0_eq:
  "pair0 = [(fresh_triad ''SYSTEM'' None)\<lparr>children := [1]\<rparr>, fresh_triad ''EPOCH'' (Some 0)]"
  by (simp add: pair0_def new_triad_def fresh_triad_def)

lemma pair0_ok: "well_linked pair0 \<and> bounded pair0"
  by (simp add: pair0_eq well_linked_def bounded_def triad_ok_def unit_scores_def
      fresh_triad_def T_STAR_def less_Suc_eq)

text \<open>
  Claim C1. Start from any store whose parents lie below their children and whose
  scores lie in \<open>[0, 1]\<close>; the empty store is one, and \<^verbatim>\<open>Triad.__init__\<close> keeps a
  store so. Then every sequence of \<^verbatim>\<open>observe\<close> calls and child reports on its nodes
  returns, the reports that those calls send up the tree included, and after each of
  its steps every node's own score (the \<^verbatim>\<open>own_s_star\<close> that \<^verbatim>\<open>observe\<close> computes) and
  blended score (\<^verbatim>\<open>macro_s_star\<close>) lie in \<open>[0, 1]\<close>.
\<close>

theorem scores_bounded:
  assumes "well_linked h" "bounded h" "list_all (admissible (length h)) es"
  shows "\<exists>h'. happens h (take k es) = Some h'
           \<and> (\<forall>t\<in>set h'. 0 \<le> own_s_star t \<and> own_s_star t \<le> 1
                  \<and> 0 \<le> macro_s_star t \<and> macro_s_star t \<le> 1)"
proof -
  have "list_all (admissible (length h)) (take k es)"
    using assms(3) by (auto simp: list_all_iff dest: in_set_takeD)
  from happens_bounded [OF assms(1,2) this]
  obtain h' where h': "happens h (take k es) = Some h'" "bounded h'" by blast
  have "0 \<le> own_s_star t \<and> own_s_star t \<le> 1 \<and> 0 \<le> macro_s_star t \<and> macro_s_star t \<le> 1"
    if "t \<in> set h'" for t
  proof -
    from that h'(2) have "triad_ok t" by (simp add: bounded_def list_all_iff)
    then show ?thesis
      using own_s_star_bounds [of t] by (simp add: triad_ok_def)
  qed
  with h'(1) show ?thesis by blast
qed

theorem scores_bounded_witness:
  "well_linked pair0 \<and> bounded pair0
   \<and> list_all (admissible (length pair0)) [Observe 1 2, Report 0 ''EPOCH'' (1 / 2), Observe 0 3]
   \<and> (\<exists>h'. happens pair0 (take 2 [Observe 1 2, Report 0 ''EPOCH'' (1 / 2), Observe 0 3])
              = Some h'
           \<and> (\<forall>t\<in>set h'. 0 \<le> own_s_star t \<and> own_s_star t \<le> 1
                  \<and> 0 \<le> macro_s_star t \<and> macro_s_star t \<le> 1))"
proof -
  have a: "well_linked pair0" "bounded pair0" using pair0_ok by simp_all
  have b: "list_all (admissible (length pair0))
             [Observe 1 2, Report 0 ''EPOCH'' (1 / 2), Observe 0 3]"
    by (simp add: pair0_eq)
  from scores_bounded [OF a b, of 2] a b show ?thesis by blast
qed

subsection \<open>A report moves the parent by half the change\<close>

lemma own_s_receive_node [simp]: "own_s (receive_node t n s) = own_s t"
  by (simp add: own_s_def)

lemma receive_node_macro:
  "macro_s_star (receive_node t n s)
     = (own_s t + child_mean (dict_set (child_coherences t) n s)) / 2"
  by (simp add: receive_node_def Let_def dict_set_nonempty C_def)

lemma receive_node_single:
  assumes "child_coherences t = [] \<or> (\<exists>s0. child_coherences t = [(n, s0)])"
  shows "macro_s_star (receive_node t n s) = (own_s t + s) / 2"
    "child_coherences (receive_node t n s) = [(n, s)]"
  using assms by (auto simp: receive_node_macro child_mean_def dict_values_def)

lemma receive_child_coherence_at:
  assumes "well_linked h" "i < length h"
  shows "\<exists>h'. receive_child_coherence h i n s = Some h' \<and> length h' = length h
           \<and> well_linked h' \<and> h' ! i = receive_node (h ! i) n s
           \<and> (\<forall>j. i < j \<longrightarrow> h' ! j = h ! j)"
  using receive_child_coherence_returns
    [where P = "\<lambda>_. True" and Q = "\<lambda>_. True" and h = h and i = i and n = n and s = s]
    assms
  by auto

text \<open>
  Claim C2. Let a node hold at most the score of one child \<open>n\<close>. After that child
  reports \<open>s1\<close>, let the store change in any way that leaves the node as the report
  left it (no \<^verbatim>\<open>observe\<close> on it, no other child), and let the child report \<open>s2\<close>.
  Both calls return, and the node's \<^verbatim>\<open>macro_s_star\<close> moves by exactly
  \<open>(s2 - s1) / 2\<close>: nothing damps the hop.
\<close>

theorem lossless_propagation:
  assumes "well_linked h" "p < length h"
    "child_coherences (h ! p) = [] \<or> (\<exists>s0. child_coherences (h ! p) = [(n, s0)])"
    "well_linked h'" "length h' = length h"
  shows "\<exists>h1. receive_child_coherence h p n s1 = Some h1
           \<and> (h' ! p = h1 ! p \<longrightarrow>
                (\<exists>h2. receive_child_coherence h' p n s2 = Some h2
                    \<and> macro_s_star (h2 ! p) - macro_s_star (h1 ! p) = (s2 - s1) / 2))"
proof -
  from receive_child_coherence_at [OF assms(1,2), of n s1]
  obtain h1 where h1: "receive_child_coherence h p n s1 = Some h1"
    "h1 ! p = receive_node (h ! p) n s1"
    by blast
  note first = receive_node_single [OF assms(3), of s1]
  have "\<exists>h2. receive_child_coherence h' p n s2 = Some h2
          \<and> macro_s_star (h2 ! p) - macro_s_star (h1 ! p) = (s2 - s1) / 2"
    if same: "h' ! p = h1 ! p"
  proof -
    from assms(2,5) have "p < length h'" by simp
    from receive_child_coherence_at [OF assms(4) this, of n s2]
    obtain h2 where h2: "receive_child_coherence h' p n s2 = Some h2"
      "h2 ! p = receive_node (h' ! p) n s2"
      by blast
    have "child_coherences (h1 ! p) = [] \<or> (\<exists>s0. child_coherences (h1 ! p) = [(n, s0)])"
      using first(2) h1(2) by simp
    from receive_node_single(1) [OF this, of s2]
    have "macro_s_star (h2 ! p) = (own_s (h ! p) + s2) / 2"
      using h2(2) same h1(2) by simp
    moreover have "macro_s_star (h1 ! p) = (own_s (h ! p) + s1) / 2"
      using first(1) h1(2) by simp
    ultimately have "macro_s_star (h2 ! p) - macro_s_star (h1 ! p) = (s2 - s1) / 2"
      by (simp add: field_simps)
    with h2(1) show ?thesis by blast
  qed
  with h1(1) show ?thesis by blast
qed

lemma pair0_root: "child_coherences (pair0 ! 0) = []" "length pair0 = 2"
  by (simp_all add: pair0_eq fresh_triad_def)

theorem lossless_propagation_witness:
  "\<exists>h1 h2. well_linked pair0 \<and> (0::nat) < length pair0 \<and> child_coherences (pair0 ! 0) = []
     \<and> receive_child_coherence pair0 0 ''EPOCH'' (1 / 2) = Some h1
     \<and> well_linked h1 \<and> length h1 = length pair0
     \<and> receive_child_coherence h1 0 ''EPOCH'' (9 / 10) = Some h2
     \<and> macro_s_star (h2 ! 0) - macro_s_star (h1 ! 0) = (9 / 10 - 1 / 2) / 2"
proof -
  have a: "well_linked pair0" "0 < length pair0"
    "child_coherences (pair0 ! 0) = [] \<or> (\<exists>s0. child_coherences (pair0 ! 0) = [(''EPOCH'', s0)])"
    using pair0_ok pair0_root by simp_all
  from receive_child_coherence_at [OF a(1,2), of "''EPOCH''" "1 / 2"]
  obtain h1 where h1: "receive_child_coherence pair0 0 ''EPOCH'' (1 / 2) = Some h1"
    "well_linked h1" "length h1 = length pair0"
    by blast
  from lossless_propagation [OF a h1(2,3), of "1 / 2" "9 / 10"] h1 a(1,2) pair0_root(1)
  show ?thesis by auto
qed

subsection \<open>What a report recomputes\<close>

lemma observe_at:
  assumes "well_linked h" "i < length h"
  shows "\<exists>h'. observe h i v = Some h' \<and> length h' = length h \<and> well_linked h'
           \<and> h' ! i = observe_node (h ! i) v \<and> (\<forall>j. i < j \<longrightarrow> h' ! j = h ! j)
           \<and> (\<forall>p. parent (h ! i) = Some p \<longrightarrow>
                 h' ! p = receive_node (h ! p) (name (h ! i))
                            (macro_s_star (observe_node (h ! i) v)))"
proof -
  define t where "t = observe_node (h ! i) v"
  define h1 where "h1 = h[i := t]"
  have wl1: "well_linked h1"
    unfolding h1_def using assms(1) by (rule well_linked_update) (simp add: t_def)
  have at1: "h1 ! i = t" "length h1 = length h"
    using assms(2) by (simp_all add: h1_def)
  show ?thesis
  proof (cases "parent (h ! i)")
    case None
    then have "observe h i v = Some h1"
      by (simp add: observe_def h1_def t_def)
    with wl1 at1 None show ?thesis
      by (simp add: t_def h1_def)
  next
    case (Some p)
    then have eq: "observe h i v = receive_child_coherence h1 p (name t) (macro_s_star t)"
      by (simp add: observe_def h1_def t_def)
    have pi: "p < i"
      using well_linked_parent [OF assms(1,2) Some] .
    then have "p < length h1" using assms(2) at1(2) by simp
    from receive_child_coherence_at [OF wl1 this, of "name t" "macro_s_star t"]
    obtain h' where h': "receive_child_coherence h1 p (name t) (macro_s_star t) = Some h'"
      "length h' = length h1" "well_linked h'" "h' ! p = receive_node (h1 ! p) (name t) (macro_s_star t)"
      "\<forall>j. p < j \<longrightarrow> h' ! j = h1 ! j"
      by blast
    have "h' ! i = t" using h'(5) pi at1(1) by simp
    moreover have "\<forall>j. i < j \<longrightarrow> h' ! j = h ! j"
      using h'(5) pi by (simp add: h1_def)
    moreover have "h' ! p = receive_node (h ! p) (name (h ! i)) (macro_s_star t)"
      using h'(4) pi by (simp add: h1_def t_def)
    ultimately show ?thesis
      using eq h'(1,2,3) at1(2) Some by (simp add: t_def)
  qed
qed

lemma observes_at:
  "well_linked h \<Longrightarrow> i < length h \<Longrightarrow>
     \<exists>h'. observes h (map (Pair i) vs) = Some h' \<and> length h' = length h \<and> well_linked h'
       \<and> h' ! i = foldl observe_node (h ! i) vs \<and> (\<forall>j. i < j \<longrightarrow> h' ! j = h ! j)"
proof (induction vs arbitrary: h)
  case Nil
  then show ?case by simp
next
  case (Cons v vs)
  from observe_at [OF Cons.prems, of v]
  obtain h1 where h1: "observe h i v = Some h1" "length h1 = length h" "well_linked h1"
    "h1 ! i = observe_node (h ! i) v" "\<forall>j. i < j \<longrightarrow> h1 ! j = h ! j"
    by blast
  from Cons.prems(2) h1(2) have "i < length h1" by simp
  from Cons.IH [OF h1(3) this] h1 show ?case by simp
qed

text \<open>
  Claim C5, as the code has it. A report from a child returns on a well-linked store;
  it stores the score under the child's name and sets the receiver's \<^verbatim>\<open>macro_s_star\<close>
  to the mean of two terms: the mean of the updated \<^verbatim>\<open>_child_coherences\<close>, and an own
  term that it derives afresh from the smoothed mean and variance with the alignment
  fixed at one half (\<open>T_STAR\<close> when the mean is not positive or fewer than 4
  observations were made). The own term does not depend on the window of raw
  observations, and the report leaves the window, the counter and both estimates alone.
\<close>

theorem child_report_recomputes:
  assumes "well_linked h" "i < length h"
  shows "\<exists>h'. receive_child_coherence h i n s = Some h'
           \<and> child_coherences (h' ! i) = dict_set (child_coherences (h ! i)) n s
           \<and> macro_s_star (h' ! i) = (own_s (h ! i) + child_mean (child_coherences (h' ! i))) / 2
           \<and> own_s (h ! i) =
               (if self_ema (h ! i) > 0 \<and> micro_len (h ! i) \<ge> 4
                then FACTOR * (1 / (1 + sqrt (self_emv (h ! i)) / self_ema (h ! i))) * (1 / 2)
                else T_STAR)
           \<and> (\<forall>b. own_s ((h ! i)\<lparr>micro_buf := b\<rparr>) = own_s (h ! i))
           \<and> micro_buf (h' ! i) = micro_buf (h ! i) \<and> count (h' ! i) = count (h ! i)
           \<and> self_ema (h' ! i) = self_ema (h ! i) \<and> self_emv (h' ! i) = self_emv (h ! i)"
proof -
  from receive_child_coherence_at [OF assms, of n s]
  obtain h' where h': "receive_child_coherence h i n s = Some h'"
    "h' ! i = receive_node (h ! i) n s"
    by blast
  then show ?thesis
    by (auto simp: receive_node_macro own_s_def s_star_def)
qed

theorem child_report_recomputes_witness:
  "well_linked pair0 \<and> (0::nat) < length pair0
   \<and> (\<exists>h'. receive_child_coherence pair0 0 ''EPOCH'' (1 / 2) = Some h'
         \<and> child_coherences (h' ! 0) = [(''EPOCH'', 1 / 2)]
         \<and> macro_s_star (h' ! 0) = (T_STAR + 1 / 2) / 2)"
proof -
  have a: "well_linked pair0" "0 < length pair0"
    using pair0_ok pair0_root by simp_all
  have b: "own_s (pair0 ! 0) = T_STAR" "child_coherences (pair0 ! 0) = []"
    by (simp_all add: pair0_eq fresh_triad_def own_s_def)
  from child_report_recomputes [OF a, of "''EPOCH''" "1 / 2"]
  obtain h' where "receive_child_coherence pair0 0 ''EPOCH'' (1 / 2) = Some h'"
    "child_coherences (h' ! 0) = dict_set (child_coherences (pair0 ! 0)) ''EPOCH'' (1 / 2)"
    "macro_s_star (h' ! 0) = (own_s (pair0 ! 0) + child_mean (child_coherences (h' ! 0))) / 2"
    by blast
  then show ?thesis
    using a by (simp add: b child_mean_def dict_values_def)
qed

lemma chain3_eq:
  "chain3 = [(fresh_triad ''G'' None)\<lparr>children := [1]\<rparr>,
             (fresh_triad ''N'' (Some 0))\<lparr>children := [2]\<rparr>, fresh_triad ''C'' (Some 1)]"
  by (simp add: chain3_def new_triad_def fresh_triad_def)

lemma chain3_linked: "well_linked chain3" "length chain3 = 3"
  by (simp_all add: chain3_eq well_linked_def fresh_triad_def less_Suc_eq)

lemma four_ones_reached:
  "foldl observe_node ((fresh_triad ''N'' (Some 0))\<lparr>children := [2]\<rparr>) [1, 1, 1, 1] = four_ones"
  by (simp add: observe_node_def track_def Let_def fresh_triad_def deque_append_def
      own_s_star_def cv_of_def alignment_def last_n_def diffs_def s_star_def SIGMA_const_def
      FACTOR_def SIGMA_STAR_def four_ones_def)

lemma four_ones_scores:
  "own_s_star four_ones = 982081 / 1000000" "own_s four_ones = 982081 / 2000000"
  by (simp_all add: four_ones_def own_s_star_def own_s_def cv_of_def alignment_def last_n_def
      diffs_def Let_def s_star_def FACTOR_def SIGMA_const_def SIGMA_STAR_def)

lemma first_of_child:
  "macro_s_star (observe_node (fresh_triad ''C'' (Some 1)) 1) = T_STAR"
  by (simp add: observe_node_def track_def Let_def fresh_triad_def own_s_star_def)

lemma four_ones_report:
  "dict_set (child_coherences four_ones) ''C'' T_STAR = [(''C'', 714 / 1000)]"
  "macro_s_star (receive_node four_ones ''C'' T_STAR) = 2410081 / 4000000"
  by (simp_all add: receive_node_macro child_mean_def dict_values_def four_ones_def own_s_def
      s_star_def FACTOR_def SIGMA_const_def SIGMA_STAR_def T_STAR_def)

text \<open>
  Claim C5 as stated fails. In the chain G, N, C let N observe 1 four times: its last
  \<^verbatim>\<open>own_s_star\<close> is 0.982081. Then C observes once and reports 0.714 to N, and N's
  \<^verbatim>\<open>macro_s_star\<close> becomes 0.60252025, not the mean of 0.982081 and 0.714.
\<close>

theorem child_report_counterexample:
  "Option.bind (observes chain3 [(1, 1), (1, 1), (1, 1), (1, 1)])
     (\<lambda>h. map_option
        (\<lambda>h'. (parent (h ! 1), own_s_star (h ! 1), child_coherences (h' ! 1),
               macro_s_star (h' ! 1)))
        (observe h 2 1))
   = Some (Some 0, 982081 / 1000000, [(''C'', 714 / 1000)], 2410081 / 4000000)
   \<and> (2410081 / 4000000 :: real) \<noteq> (982081 / 1000000 + 714 / 1000) / 2"
proof -
  from observes_at [OF chain3_linked(1), of 1 "[1, 1, 1, 1]"]
  obtain h where h: "observes chain3 [(1, 1), (1, 1), (1, 1), (1, 1)] = Some h"
    "length h = 3" "well_linked h" "h ! 1 = foldl observe_node (chain3 ! 1) [1, 1, 1, 1]"
    "h ! 2 = chain3 ! 2"
    by (auto simp: chain3_linked(2))
  have n: "h ! 1 = four_ones"
    using h(4) four_ones_reached by (simp add: chain3_eq)
  have c: "h ! 2 = fresh_triad ''C'' (Some 1)"
    using h(5) by (simp add: chain3_eq)
  have "2 < length h" using h(2) by simp
  from observe_at [OF h(3) this, of 1]
  obtain h' where h': "observe h 2 1 = Some h'"
    "h' ! 1 = receive_node (h ! 1) (name (h ! 2)) (macro_s_star (observe_node (h ! 2) 1))"
    by (auto simp: c fresh_triad_def)
  have r: "h' ! 1 = receive_node four_ones ''C'' T_STAR"
    unfolding h'(2) n c first_of_child by (simp add: fresh_triad_def)
  have p: "parent four_ones = Some 0" by (simp add: four_ones_def)
  show ?thesis
    unfolding h(1) by (simp add: h'(1) del: One_nat_def)
      (simp add: n r p four_ones_scores four_ones_report del: One_nat_def)
qed

subsection \<open>The own score\<close>

lemma diffs_Cons2 [simp]: "diffs (x # y # zs) = (y - x) # diffs (y # zs)"
  by (simp add: diffs_def)

lemma diffs_short [simp]: "diffs [] = []" "diffs [x] = []"
  by (simp_all add: diffs_def)

lemma nondecreasing_diffs: "list_all (\<lambda>d. d \<ge> 0) (diffs w) = sorted w"
  by (induction w rule: induct_list012) (auto intro: order_trans)

lemma nonincreasing_diffs: "list_all (\<lambda>d. d \<le> 0) (diffs w) = sorted (rev w)"
proof -
  have "list_all (\<lambda>d. d \<le> 0) (diffs w) = sorted_wrt (\<lambda>x y. y \<le> x) w"
    by (induction w rule: induct_list012) (auto intro: order_trans)
  then show ?thesis
    by (simp add: sorted_wrt_rev)
qed

lemma monotonic_diffs:
  "(list_all (\<lambda>d. d \<ge> 0) (diffs w) \<or> list_all (\<lambda>d. d \<le> 0) (diffs w)) = spec_monotonic w"
  by (simp add: nondecreasing_diffs nonincreasing_diffs spec_monotonic_def)

lemma length_diffs: "length (diffs w) = length w - 1"
  by (simp add: diffs_def)

lemma track_consistent:
  assumes "consistent t"
  shows "consistent (track t v)"
  using assms
  by (auto simp: consistent_def track_def Let_def deque_append_def SIGMA_const_def min_def)

lemma fresh_consistent: "consistent (fresh_triad nm p)"
  by (simp add: consistent_def fresh_triad_def)

lemma observe_node_consistent: "consistent t \<Longrightarrow> consistent (observe_node t v)"
  using track_consistent [of t v] by (simp add: observe_node_def Let_def consistent_def)

lemma receive_node_consistent: "consistent t \<Longrightarrow> consistent (receive_node t n s)"
  by (simp add: consistent_def)

lemma own_s_star_observe_node [simp]: "own_s_star (observe_node t v) = own_s_star (track t v)"
  by (simp add: observe_node_def Let_def)

lemma observe_node_fields [simp]:
  "micro_buf (observe_node t v) = micro_buf (track t v)"
  "micro_len (observe_node t v) = micro_len (track t v)"
  "self_ema (observe_node t v) = self_ema (track t v)"
  "self_emv (observe_node t v) = self_emv (track t v)"
  by (simp_all add: observe_node_def Let_def)

lemma clamp_unit: "0 \<le> x \<Longrightarrow> x \<le> 1 \<Longrightarrow> max 0 (min 1 x) = (x::real)"
  by simp

lemma own_s_star_consistent:
  assumes "consistent t"
  shows "own_s_star t =
     (if count t < 4 then T_STAR
      else max 0 (min 1
        (SIGMA_const * (1 - SIGMA_STAR)
          * (1 / (1 + (if self_ema t > 0 then sqrt (self_emv t) / self_ema t else 1)))
          * (if spec_monotonic (last_n 4 (micro_buf t)) then 1
             else (real (same_count (diffs (last_n 4 (micro_buf t)))) + 1) / 3))))"
proof (cases "count t < 4")
  case True
  with assms show ?thesis by (simp add: own_s_star_def consistent_def)
next
  case False
  with assms have len: "4 \<le> micro_len t" "4 \<le> length (micro_buf t)" "0 \<le> self_emv t"
    by (simp_all add: consistent_def)
  have l3: "length (diffs (last_n 4 (micro_buf t))) = 3"
    using len(2) by (simp add: length_diffs last_n_def)
  have "own_s_star t = SIGMA_const * (1 - SIGMA_STAR)
          * (1 / (1 + (if self_ema t > 0 then sqrt (self_emv t) / self_ema t else 1)))
          * (if spec_monotonic (last_n 4 (micro_buf t)) then 1
             else (real (same_count (diffs (last_n 4 (micro_buf t)))) + 1) / 3)"
    using len(1,2)
    by (simp add: own_s_star_def s_star_def FACTOR_def cv_of_def alignment_def Let_def
        monotonic_diffs l3)
  with own_s_star_bounds [OF len(3)] False show ?thesis
    by simp
qed

text \<open>
  Claim C6, as the code has it. After \<^verbatim>\<open>observe\<close> on a node in a consistent state
  the own score is \<open>T_STAR\<close> while fewer than 4 observations have been made, and
  otherwise \<open>\<sigma> (1 - \<sigma>\<^sup>*) \<cdot> vitality \<cdot> alignment\<close>, which clamping to \<open>[0, 1]\<close> leaves as
  it is: vitality is \<open>1 / (1 + cv)\<close> with \<open>cv = sqrt variance / mean\<close> for a positive
  mean and \<open>cv = 1\<close> otherwise; alignment is 1 when the last 4 observations are
  monotonic and otherwise one more than the number of adjacent pairs of the three
  differences that agree in sign, divided by 3.
\<close>

theorem own_score_formula:
  assumes "consistent t"
  shows "own_s_star (observe_node t v) =
     (if count (observe_node t v) < 4 then T_STAR
      else max 0 (min 1
        (SIGMA_const * (1 - SIGMA_STAR)
          * (1 / (1 + (if self_ema (observe_node t v) > 0
                       then sqrt (self_emv (observe_node t v)) / self_ema (observe_node t v)
                       else 1)))
          * (if spec_monotonic (last_n 4 (micro_buf (observe_node t v))) then 1
             else (real (same_count (diffs (last_n 4 (micro_buf (observe_node t v))))) + 1)
                    / 3))))"
  using own_s_star_consistent [OF observe_node_consistent [OF assms, of v]] by simp

lemma zigzag_fields:
  "micro_buf zigzag = [1, 2, 1, 2]" "micro_len zigzag = 4" "count zigzag = 4"
  by (simp_all add: zigzag_def fresh_triad_def track_def Let_def deque_append_def)

lemma zigzag_consistent: "consistent zigzag"
  unfolding zigzag_def
  by (simp add: observe_node_consistent fresh_consistent)

lemma zigzag_alignment: "alignment [1, 2, 1, 2] = 1 / 3" "spec_alignment [1, 2, 1, 2] = 0"
  by (simp_all add: alignment_def spec_alignment_def spec_monotonic_def last_n_def same_count_def
      Let_def)

text \<open>
  Claim C6 as stated fails. After the observations 1, 2, 1, 2 no two adjacent
  differences agree in sign: the specification's alignment is 0 and its score 0, while
  the code's alignment is one third and its score positive.
\<close>

theorem own_score_counterexample:
  "micro_buf zigzag = [1, 2, 1, 2] \<and> count zigzag = 4
   \<and> own_s_star zigzag = FACTOR * (1 / (1 + cv_of zigzag)) * (1 / 3)
   \<and> 0 < own_s_star zigzag \<and> spec_own_score zigzag = 0"
proof -
  have emv: "0 \<le> self_emv zigzag"
    using zigzag_consistent by (simp add: consistent_def)
  have own: "own_s_star zigzag = FACTOR * (1 / (1 + cv_of zigzag)) * (1 / 3)"
    by (simp add: own_s_star_def zigzag_fields zigzag_alignment s_star_def)
  have "0 < 1 / (1 + cv_of zigzag)"
    using cv_of_nonneg [OF emv] by simp
  then have pos: "0 < own_s_star zigzag"
    by (simp add: own FACTOR_def SIGMA_const_def SIGMA_STAR_def)
  have "spec_own_score zigzag = 0"
    by (simp add: spec_own_score_def zigzag_fields zigzag_alignment)
  with own pos show ?thesis
    by (simp add: zigzag_fields)
qed

lemma three_ones:
  "foldl observe_node (fresh_triad ''A'' None) [1, 1, 1]
     = \<lparr>name = ''A'', micro_buf = [1, 1, 1], micro_len = 3, self_ema = 1, self_emv = 0,
        macro_s_star = T_STAR, count = 3, parent = None, children = [],
        child_coherences = []\<rparr>"
  by (simp add: observe_node_def track_def Let_def fresh_triad_def deque_append_def
      own_s_star_def SIGMA_const_def)

theorem own_score_formula_witness:
  "consistent (foldl observe_node (fresh_triad ''A'' None) [1, 1, 1])
   \<and> count (observe_node (foldl observe_node (fresh_triad ''A'' None) [1, 1, 1]) 1) = 4
   \<and> own_s_star (observe_node (foldl observe_node (fresh_triad ''A'' None) [1, 1, 1]) 1)
       = 982081 / 1000000"
proof -
  define t3 where "t3 = foldl observe_node (fresh_triad ''A'' None) [1, 1, 1]"
  define t4 where "t4 = observe_node t3 1"
  have c: "consistent t3"
    by (simp add: t3_def observe_node_consistent fresh_consistent)
  have f: "count t4 = 4" "micro_buf t4 = [1, 1, 1, 1]" "self_ema t4 = 1" "self_emv t4 = 0"
    unfolding t4_def t3_def three_ones
    by (simp_all add: track_def Let_def deque_append_def SIGMA_const_def)
  have m: "spec_monotonic (last_n 4 [1, 1, 1, 1])"
    by (simp add: spec_monotonic_def last_n_def)
  have v: "max 0 (min 1 (SIGMA_const * (1 - SIGMA_STAR))) = 982081 / 1000000"
    by (simp add: SIGMA_const_def SIGMA_STAR_def)
  from own_score_formula [OF c, of 1, folded t4_def]
  have "own_s_star t4 = 982081 / 1000000"
    by (simp add: f m v)
  with c f(1) show ?thesis
    by (simp only: t4_def t3_def)
qed

section \<open>Properties of the LatticeRuntime\<close>

subsection \<open>The spine\<close>

lemma advance_spine_step:
  assumes "spine_phase rt < 10" "length (spine rt) = 10"
  shows "\<exists>rt'. advance_spine g rt = Inr rt'
           \<and> spine_phase rt' = (spine_phase rt + 1) mod 10
           \<and> length (spine rt') = 10
           \<and> epoch_count rt' = epoch_count rt + (if spine_phase rt = 9 then 1 else 0)
           \<and> triads rt' = triads rt \<and> ops_total rt' = ops_total rt
           \<and> ops_by_domain rt' = ops_by_domain rt \<and> domains rt' = domains rt
           \<and> micro_triads rt' = micro_triads rt \<and> pulse rt' = pulse rt"
proof -
  have k: "nat ((int (spine_phase rt) - 1) mod 10) < 10"
    by simp
  have e: "((spine_phase rt + 1) mod 10 = 0) = (spine_phase rt = 9)"
    using assms(1) by presburger
  show ?thesis
    using assms k by (simp add: advance_spine_def Let_def e del: One_nat_def)
qed

lemma advance_spines_steps:
  "spine_phase rt < 10 \<Longrightarrow> length (spine rt) = 10 \<Longrightarrow>
     \<exists>rt'. advance_spines gs rt = Inr rt'
       \<and> spine_phase rt' = (spine_phase rt + length gs) mod 10
       \<and> length (spine rt') = 10
       \<and> epoch_count rt' = epoch_count rt + (spine_phase rt + length gs) div 10"
proof (induction gs arbitrary: rt)
  case Nil
  then show ?case by simp
next
  case (Cons g gs)
  from advance_spine_step [OF Cons.prems, of g]
  obtain rt1 where rt1: "advance_spine g rt = Inr rt1"
    "spine_phase rt1 = (spine_phase rt + 1) mod 10" "length (spine rt1) = 10"
    "epoch_count rt1 = epoch_count rt + (if spine_phase rt = 9 then 1 else 0)"
    by blast
  have lt: "spine_phase rt1 < 10" by (simp add: rt1(2))
  from Cons.IH [OF lt rt1(3)]
  obtain rt' where rt': "advance_spines gs rt1 = Inr rt'"
    "spine_phase rt' = (spine_phase rt1 + length gs) mod 10" "length (spine rt') = 10"
    "epoch_count rt' = epoch_count rt1 + (spine_phase rt1 + length gs) div 10"
    by blast
  have p: "((spine_phase rt + 1) mod 10 + length gs) mod 10
             = (spine_phase rt + length (g # gs)) mod 10"
    by (simp add: mod_simps)
  have q: "(if spine_phase rt = 9 then 1 else 0) + ((spine_phase rt + 1) mod 10 + length gs) div 10
             = (spine_phase rt + length (g # gs)) div 10"
    using Cons.prems(1) by (auto simp: mod_if)
  show ?case
    using rt1(1) rt' p q by (simp add: rt1(2,4) del: One_nat_def)
qed

text \<open>
  Claim C8. From any of the ten stages (and a spine of ten values), ten calls of
  \<^verbatim>\<open>_advance_spine\<close> all return, bring \<^verbatim>\<open>spine_phase\<close> back to where it started and
  add exactly one to \<^verbatim>\<open>epoch_count\<close>, whatever the noise samples are.
\<close>

theorem spine_cycle_closure:
  assumes "spine_phase rt < 10" "length (spine rt) = 10" "length gs = 10"
  shows "\<exists>rt'. advance_spines gs rt = Inr rt' \<and> spine_phase rt' = spine_phase rt
           \<and> epoch_count rt' = epoch_count rt + 1"
  using advance_spines_steps [OF assms(1,2), of gs] assms(1,3) by auto

subsection \<open>The constructor\<close>

lemma upper_names:
  "upper ''compute'' = ''COMPUTE''" "upper ''memory'' = ''MEMORY''"
  "upper ''io'' = ''IO''" "upper ''net'' = ''NET''"
  by (simp_all add: upper_def upper_char_def)

lemma length_new_triad [simp]: "length (new_triad h nm p) = Suc (length h)"
  by (simp add: new_triad_def split: option.splits)

lemma make_domains_keys:
  "snd (make_domains h ep DOMAINS []) =
     [(''compute'', length h), (''memory'', length h + 1), (''io'', length h + 2),
      (''net'', length h + 3)]"
  by (simp add: DOMAINS_def)

lemma make_domains_length: "length (fst (make_domains h ep ns ds)) = length h + length ns"
  by (induction ns arbitrary: h ds) simp_all

lemma make_micros_keys:
  "snd (make_micros h ds DOMAINS []) =
     [(''compute'', length h), (''memory'', length h + 1), (''io'', length h + 2),
      (''net'', length h + 3)]"
  by (simp add: DOMAINS_def)

lemma domains_lookup:
  assumes "d \<in> set DOMAINS"
  shows "map_of (snd (make_domains h ep DOMAINS [])) d \<noteq> None"
  using assms by (auto simp: make_domains_keys DOMAINS_def)

lemma length_DOMAINS: "length DOMAINS = 4"
  by (simp add: DOMAINS_def)

lemma build_domains:
  "domains (build p) = [(''compute'', 2), (''memory'', 3), (''io'', 4), (''net'', 5)]"
  "micro_triads (build p) = [(''compute'', 6), (''memory'', 7), (''io'', 8), (''net'', 9)]"
  by (simp_all add: build_def Let_def split_def make_domains_keys make_micros_keys
      make_domains_length length_DOMAINS)

lemma build_fields:
  "spine (build p) = replicate 10 T_STAR" "spine_phase (build p) = 0"
  "ops_total (build p) = 0" "epoch_count (build p) = 0" "pulse (build p) = p"
  "ops_by_domain (build p) = [(''compute'', 0), (''memory'', 0), (''io'', 0), (''net'', 0)]"
  by (simp_all add: build_def Let_def split_def DOMAINS_def)

lemma Pulse_init_1khz: "Pulse_init (Finite 1000) = Inr pulse_1khz"
  by (simp add: new_pulse_def pulse_1khz_def py_int_def overflows_def)

lemma runtime_ok_build: "runtime_ok (build p)"
  by (simp add: runtime_ok_def build_domains build_fields DOMAINS_def)

lemma map_of_dict_set: "map_of (dict_set d k v) = (map_of d)(k \<mapsto> v)"
  by (induction d) (auto simp: fun_eq_iff)

lemma feed_unknown: "domain \<notin> set (map fst d) \<Longrightarrow> feed d domain v h = Some h"
  by (simp add: feed_def map_of_eq_None_iff [THEN iffD2])

lemma op_unknown_domain:
  assumes "runtime_ok rt" "domain \<notin> set DOMAINS"
  shows "\<exists>rt'. op rt domain (Inr r :: 'e + 'a) elapsed_ns g = Some (rt', Inr r)
           \<and> triads rt' = triads rt
           \<and> ops_total rt' = ops_total rt + 1
           \<and> spine_phase rt' = (spine_phase rt + 1) mod 10
           \<and> ops_by_domain rt' = dict_set (ops_by_domain rt) domain
                                    (dict_get (ops_by_domain rt) domain 0 + 1)
           \<and> runtime_ok rt'"
proof -
  define rt1 where "rt1 = rt\<lparr>ops_total := ops_total rt + 1,
     ops_by_domain := dict_set (ops_by_domain rt) domain (dict_get (ops_by_domain rt) domain 0 + 1)\<rparr>"
  have ok: "spine_phase rt1 < 10" "length (spine rt1) = 10"
    using assms(1) by (simp_all add: runtime_ok_def rt1_def)
  have f1: "feed (micro_triads rt) domain v h = Some h" for v h
    using assms by (intro feed_unknown) (simp add: runtime_ok_def)
  have f2: "feed (domains rt) domain v h = Some h" for v h
    using assms by (intro feed_unknown) (simp add: runtime_ok_def)
  from advance_spine_step [OF ok, of g]
  obtain rt2 where rt2: "advance_spine g rt1 = Inr rt2"
    "spine_phase rt2 = (spine_phase rt1 + 1) mod 10" "length (spine rt2) = 10"
    "triads rt2 = triads rt1" "ops_total rt2 = ops_total rt1"
    "ops_by_domain rt2 = ops_by_domain rt1" "domains rt2 = domains rt1"
    "micro_triads rt2 = micro_triads rt1"
    by blast
  have "op rt domain (Inr r) elapsed_ns g = Some (rt2, Inr r)"
    using ok rt2(1) unfolding rt1_def by (simp add: op_def Let_def f1 f2)
  moreover have "runtime_ok rt2"
    using assms(1) rt2 by (simp add: runtime_ok_def rt1_def)
  ultimately show ?thesis
    using rt2(2,4,5,6) by (auto simp: rt1_def)
qed

lemma op_work_raises:
  assumes "spine_phase rt < length (spine rt)"
  shows "op rt domain (Inl e :: 'e + 'a) elapsed_ns g =
           Some (rt\<lparr>ops_total := ops_total rt + 1,
                    ops_by_domain := dict_set (ops_by_domain rt) domain
                                       (dict_get (ops_by_domain rt) domain 0 + 1)\<rparr>,
                 Inl (Raised e))"
  using assms by (simp add: op_def Let_def)

text \<open>\<^verbatim>\<open>op\<close> keeps the invariant of the runtime, however it ends.\<close>

lemma runtime_ok_op:
  assumes "runtime_ok rt" "op rt domain work elapsed_ns g = Some (rt', res)"
  shows "runtime_ok rt'"
proof -
  define rt1 where "rt1 = rt\<lparr>ops_total := ops_total rt + 1,
     ops_by_domain := dict_set (ops_by_domain rt) domain (dict_get (ops_by_domain rt) domain 0 + 1)\<rparr>"
  have ok1: "runtime_ok rt1"
    using assms(1) by (simp add: runtime_ok_def rt1_def)
  have adv: "runtime_ok rt2" if "advance_spine g (rt1\<lparr>triads := h\<rparr>) = Inr rt2" for h rt2
  proof -
    have "spine_phase (rt1\<lparr>triads := h\<rparr>) < 10" "length (spine (rt1\<lparr>triads := h\<rparr>)) = 10"
      using ok1 by (simp_all add: runtime_ok_def)
    from advance_spine_step [OF this, of g] that ok1 show ?thesis
      by (auto simp: runtime_ok_def)
  qed
  have ok1': "runtime_ok (rt1\<lparr>triads := h\<rparr>)" for h
    using ok1 by (simp add: runtime_ok_def)
  from assms(2) show ?thesis
    unfolding op_def Let_def rt1_def [symmetric]
    using ok1 ok1' adv
    by (auto split: if_splits sum.splits option.splits)
qed

subsection \<open>Dispatch and construction\<close>

lemma new_triad_counts:
  assumes "list_all (\<lambda>t. count t = 0) h"
  shows "list_all (\<lambda>t. count t = 0) (new_triad h nm p)"
proof (cases p)
  case None
  with assms show ?thesis by (simp add: new_triad_def fresh_triad_def)
next
  case (Some q)
  show ?thesis
  proof (cases "q < length h")
    case True
    with assms have "count (h ! q) = 0" by (simp add: list_all_length)
    with assms True Some show ?thesis
      by (auto simp: new_triad_def fresh_triad_def list_all_length nth_list_update nth_append)
  next
    case False
    then have "h[q := (h ! q)\<lparr>children := children (h ! q) @ [length h]\<rparr>] = h"
      by (simp add: list_update_beyond)
    with assms Some show ?thesis by (simp add: new_triad_def fresh_triad_def)
  qed
qed

lemma make_domains_counts:
  "list_all (\<lambda>t. count t = 0) h \<Longrightarrow> list_all (\<lambda>t. count t = 0) (fst (make_domains h ep ns ds))"
  by (induction ns arbitrary: h ds) (simp_all add: new_triad_counts)

lemma make_micros_counts:
  "list_all (\<lambda>t. count t = 0) h \<Longrightarrow> list_all (\<lambda>t. count t = 0) (fst (make_micros h dm ns ms))"
  by (induction ns arbitrary: h ms) (simp_all add: new_triad_counts)

lemma make_micros_length: "length (fst (make_micros h dm ns ms)) = length h + length ns"
  by (induction ns arbitrary: h ms) simp_all

lemma build_counts: "list_all (\<lambda>t. count t = 0) (triads (build p))"
  by (simp add: build_def Let_def split_def make_micros_counts make_domains_counts new_triad_counts)

lemma build_length: "length (triads (build p)) = 10"
  by (simp add: build_def Let_def split_def make_micros_length make_domains_length length_DOMAINS)

lemma build_count_nth: "i < 10 \<Longrightarrow> count (triads (build p) ! i) = 0"
  using build_counts [of p] by (simp add: list_all_length build_length)

text \<open>
  Claim C3, as the code has it. With a domain name outside the fixed set, \<^verbatim>\<open>op\<close>
  returns what \<^verbatim>\<open>work\<close> returned, leaves every Triad as it was (so every observation
  count too), adds one to \<^verbatim>\<open>ops_total\<close> and moves the spine one stage on. It does
  write \<^verbatim>\<open>ops_by_domain\<close>: the unknown name gets an entry, its previous count (0 when
  absent) plus one; every other entry is unchanged.
\<close>

theorem op_unknown_domain_frame:
  assumes "runtime_ok rt" "domain \<notin> set DOMAINS"
  shows "\<exists>rt'. op rt domain (Inr r :: 'e + 'a) elapsed_ns g = Some (rt', Inr r)
           \<and> triads rt' = triads rt
           \<and> ops_total rt' = ops_total rt + 1
           \<and> spine_phase rt' = (spine_phase rt + 1) mod 10
           \<and> map_of (ops_by_domain rt') =
               (map_of (ops_by_domain rt))(domain \<mapsto> dict_get (ops_by_domain rt) domain 0 + 1)"
  using op_unknown_domain [OF assms, of r elapsed_ns g, where ?'e = 'e]
  by (auto simp: map_of_dict_set)

theorem op_unknown_domain_frame_witness:
  "runtime_ok (build pulse_1khz) \<and> ''nonexistent'' \<notin> set DOMAINS
   \<and> (\<exists>rt'. op (build pulse_1khz) ''nonexistent'' (Inr 2 :: unit + nat) 5000 0 = Some (rt', Inr 2)
          \<and> triads rt' = triads (build pulse_1khz)
          \<and> ops_total rt' = 1
          \<and> spine_phase rt' = 1
          \<and> map_of (ops_by_domain rt') ''nonexistent'' = Some 1)"
proof -
  have a: "runtime_ok (build pulse_1khz)" by (rule runtime_ok_build)
  have b: "''nonexistent'' \<notin> set DOMAINS" by (simp add: DOMAINS_def)
  from op_unknown_domain_frame [OF a b, of "2 :: nat" 5000 0, where ?'e = unit]
  obtain rt' where "op (build pulse_1khz) ''nonexistent'' (Inr 2 :: unit + nat) 5000 0 = Some (rt', Inr 2)"
    "triads rt' = triads (build pulse_1khz)" "ops_total rt' = ops_total (build pulse_1khz) + 1"
    "spine_phase rt' = (spine_phase (build pulse_1khz) + 1) mod 10"
    "map_of (ops_by_domain rt') = (map_of (ops_by_domain (build pulse_1khz)))
        (''nonexistent'' \<mapsto> dict_get (ops_by_domain (build pulse_1khz)) ''nonexistent'' 0 + 1)"
    by blast
  then show ?thesis
    using a b by (simp add: build_fields dict_get_def)
qed

text \<open>
  Claim C3 as stated fails: on a fresh runtime the call
  \<^verbatim>\<open>op("nonexistent", lambda: 2)\<close> returns 2 and leaves \<^verbatim>\<open>ops_by_domain\<close> with a fifth
  entry.
\<close>

theorem op_unknown_domain_counterexample:
  "map_option snd (op (build pulse_1khz) ''nonexistent'' (Inr 2 :: unit + nat) 5000 0)
     = Some (Inr 2)
   \<and> map_option (\<lambda>s. ops_by_domain (fst s))
        (op (build pulse_1khz) ''nonexistent'' (Inr 2 :: unit + nat) 5000 0)
     = Some (ops_by_domain (build pulse_1khz) @ [(''nonexistent'', 1)])
   \<and> ops_by_domain (build pulse_1khz) @ [(''nonexistent'', 1)] \<noteq> ops_by_domain (build pulse_1khz)"
proof -
  have b: "''nonexistent'' \<notin> set DOMAINS" by (simp add: DOMAINS_def)
  from op_unknown_domain [OF runtime_ok_build b, of pulse_1khz "2 :: nat" 5000 0, where ?'e = unit]
  show ?thesis
    by (auto simp: build_fields dict_get_def)
qed

text \<open>
  Claim C4, as the code has it. When \<^verbatim>\<open>work\<close> raises, \<^verbatim>\<open>op\<close> raises the same
  exception; by then it has counted the call in \<^verbatim>\<open>ops_total\<close> and
  \<^verbatim>\<open>ops_by_domain\<close>, and nothing else has happened: no Triad has been fed and the
  spine has not moved.
\<close>

theorem op_failing_work:
  assumes "runtime_ok rt"
  shows "\<exists>rt'. op rt domain (Inl e :: 'e + 'a) elapsed_ns g = Some (rt', Inl (Raised e))
           \<and> triads rt' = triads rt \<and> spine rt' = spine rt
           \<and> spine_phase rt' = spine_phase rt
           \<and> ops_total rt' = ops_total rt + 1
           \<and> map_of (ops_by_domain rt') =
               (map_of (ops_by_domain rt))(domain \<mapsto> dict_get (ops_by_domain rt) domain 0 + 1)"
proof -
  have "spine_phase rt < length (spine rt)"
    using assms by (simp add: runtime_ok_def)
  from op_work_raises [OF this, of domain e elapsed_ns g, where ?'a = 'a] show ?thesis
    by (auto simp: map_of_dict_set)
qed

theorem op_failing_work_witness:
  "runtime_ok (build pulse_1khz)
   \<and> (\<exists>rt'. op (build pulse_1khz) ''compute'' (Inl ''boom'' :: string + nat) 5000 0
              = Some (rt', Inl (Raised ''boom''))
          \<and> triads rt' = triads (build pulse_1khz) \<and> spine rt' = spine (build pulse_1khz)
          \<and> spine_phase rt' = 0 \<and> ops_total rt' = 1
          \<and> map_of (ops_by_domain rt') ''compute'' = Some 1)"
proof -
  have a: "runtime_ok (build pulse_1khz)" by (rule runtime_ok_build)
  from op_failing_work [OF a, of "''compute''" "''boom''" 5000 0, where ?'a = nat]
  obtain rt' where "op (build pulse_1khz) ''compute'' (Inl ''boom'' :: string + nat) 5000 0
        = Some (rt', Inl (Raised ''boom''))"
    "triads rt' = triads (build pulse_1khz)" "spine rt' = spine (build pulse_1khz)"
    "spine_phase rt' = spine_phase (build pulse_1khz)"
    "ops_total rt' = ops_total (build pulse_1khz) + 1"
    "map_of (ops_by_domain rt') = (map_of (ops_by_domain (build pulse_1khz)))
        (''compute'' \<mapsto> dict_get (ops_by_domain (build pulse_1khz)) ''compute'' 0 + 1)"
    by blast
  then show ?thesis
    using a by (simp add: build_fields dict_get_def)
qed

text \<open>
  Claim C4 as stated fails: on a fresh runtime a failing call in the domain
  \<^verbatim>\<open>compute\<close> raises what \<^verbatim>\<open>work\<close> raised and leaves the observation counts of the
  domain's two Triads (addresses 6 and 2) at zero.
\<close>

theorem op_failing_work_counterexample:
  "map_option snd (op (build pulse_1khz) ''compute'' (Inl ''boom'' :: string + nat) 5000 0)
     = Some (Inl (Raised ''boom''))
   \<and> map_of (micro_triads (build pulse_1khz)) ''compute'' = Some 6
   \<and> map_of (domains (build pulse_1khz)) ''compute'' = Some 2
   \<and> map_option (\<lambda>s. map (\<lambda>a. count (triads (fst s) ! a)) [6, 2])
        (op (build pulse_1khz) ''compute'' (Inl ''boom'' :: string + nat) 5000 0)
     = Some [0, 0]"
proof -
  have "spine_phase (build pulse_1khz) < length (spine (build pulse_1khz))"
    by (simp add: build_fields)
  from op_work_raises [OF this, of "''compute''" "''boom''" 5000 0, where ?'a = nat]
  show ?thesis
    by (simp add: build_domains build_count_nth)
qed

theorem spine_cycle_closure_witness:
  "spine_phase (build pulse_1khz) < 10 \<and> length (spine (build pulse_1khz)) = 10
   \<and> length (replicate 10 (0::real)) = 10
   \<and> (\<exists>rt'. advance_spines (replicate 10 0) (build pulse_1khz) = Inr rt'
          \<and> spine_phase rt' = spine_phase (build pulse_1khz)
          \<and> epoch_count rt' = epoch_count (build pulse_1khz) + 1)"
proof -
  have a: "spine_phase (build pulse_1khz) < 10" "length (spine (build pulse_1khz)) = 10"
    "length (replicate 10 (0::real)) = 10"
    by (simp_all add: build_fields)
  from spine_cycle_closure [OF a] a show ?thesis by blast
qed

lemma Pulse_init_raises:
  "Pulse_init hz = Inl e \<longleftrightarrow>
     (hz = Finite 0 \<and> e = ZeroDivisionError)
     \<or> (hz = NaN \<and> e = ValueError)
     \<or> ((\<exists>x. hz = Finite x \<and> x \<noteq> 0 \<and> overflows (10 ^ 9 / x)) \<and> e = OverflowError)"
  by (cases hz) auto

lemma LatticeRuntime_init_raises:
  "LatticeRuntime_init hz = Inl e \<longleftrightarrow> Pulse_init hz = Inl e"
  by (simp add: LatticeRuntime_init_def split: sum.splits)

lemma Pulse_init_builds:
  assumes "hz \<noteq> Finite 0" "hz \<noteq> NaN" "\<forall>x. hz = Finite x \<longrightarrow> \<not> overflows (10 ^ 9 / x)"
  shows "Pulse_init hz
           = Inr (new_pulse hz (case hz of Finite x \<Rightarrow> py_int (10 ^ 9 / x) | _ \<Rightarrow> 0))"
  using assms by (cases hz) auto

lemma tiny_rate_overflows: "overflows (10 ^ 9 / (1 / 10 ^ 300))"
  by (simp add: overflows_def)

text \<open>
  Claim C9, as the code has it. Building a Pulse or a runtime raises in exactly three
  cases, each time in \<^verbatim>\<open>int(1e9 / rate)\<close>: ZeroDivisionError for the rate 0,
  ValueError for a NaN rate, and OverflowError for a finite rate other than 0 so small
  that \<^verbatim>\<open>1e9 / rate\<close> leaves the range of the doubles. Every other rate, a negative or
  an infinite one too, builds a Pulse that stores the rate and whose target interval
  is \<^verbatim>\<open>int(1e9 / rate)\<close>, and a runtime around it. The runtime takes no list of
  domains: its domains are always the four fixed names.
\<close>

theorem construction_errors:
  "(Pulse_init hz = Inl e \<longleftrightarrow>
      (hz = Finite 0 \<and> e = ZeroDivisionError)
      \<or> (hz = NaN \<and> e = ValueError)
      \<or> ((\<exists>x. hz = Finite x \<and> x \<noteq> 0 \<and> overflows (10 ^ 9 / x)) \<and> e = OverflowError))
   \<and> (LatticeRuntime_init hz = Inl e \<longleftrightarrow> Pulse_init hz = Inl e)
   \<and> (hz \<noteq> Finite 0 \<and> hz \<noteq> NaN \<and> (\<forall>x. hz = Finite x \<longrightarrow> \<not> overflows (10 ^ 9 / x)) \<longrightarrow>
        (\<exists>p. Pulse_init hz = Inr p
            \<and> target_ns p = (case hz of Finite x \<Rightarrow> py_int (10 ^ 9 / x) | _ \<Rightarrow> 0)
            \<and> natural_freq p = hz
            \<and> LatticeRuntime_init hz = Inr (build p)
            \<and> map fst (domains (build p)) = DOMAINS \<and> DOMAINS \<noteq> []))"
proof -
  have d: "map fst (domains (build p)) = DOMAINS \<and> DOMAINS \<noteq> []" for p
    using runtime_ok_build [of p] by (auto simp: runtime_ok_def DOMAINS_def)
  have "\<exists>p. Pulse_init hz = Inr p
            \<and> target_ns p = (case hz of Finite x \<Rightarrow> py_int (10 ^ 9 / x) | _ \<Rightarrow> 0)
            \<and> natural_freq p = hz
            \<and> LatticeRuntime_init hz = Inr (build p)
            \<and> map fst (domains (build p)) = DOMAINS \<and> DOMAINS \<noteq> []"
    if "hz \<noteq> Finite 0" "hz \<noteq> NaN" "\<forall>x. hz = Finite x \<longrightarrow> \<not> overflows (10 ^ 9 / x)"
    using Pulse_init_builds [OF that] d
    by (simp add: LatticeRuntime_init_def new_pulse_def)
  with Pulse_init_raises [of hz e] LatticeRuntime_init_raises [of hz e] show ?thesis
    by blast
qed

theorem construction_errors_witness:
  "Finite 1000 \<noteq> Finite 0 \<and> Finite 1000 \<noteq> NaN \<and> \<not> overflows (10 ^ 9 / 1000)
   \<and> (\<exists>p. Pulse_init (Finite 1000) = Inr p \<and> target_ns p = 1000000
          \<and> natural_freq p = Finite 1000
          \<and> LatticeRuntime_init (Finite 1000) = Inr (build p)
          \<and> map fst (domains (build p)) = DOMAINS \<and> DOMAINS \<noteq> [])"
proof -
  have a: "py_int (10 ^ 9 / 1000) = 1000000" "\<not> overflows (10 ^ 9 / 1000)"
    by (simp_all add: py_int_def overflows_def)
  with construction_errors [of "Finite 1000" ZeroDivisionError] show ?thesis by simp
qed

text \<open>
  Claim C9 as stated fails both ways: the rate \<open>-1\<close> is not positive and both
  constructors accept it, and the rate \<open>1e-300\<close> is positive and both raise.
\<close>

theorem construction_errors_counterexample:
  "Pulse_init (Finite (- 1)) = Inr pulse_neg
   \<and> LatticeRuntime_init (Finite (- 1)) = Inr (build pulse_neg)
   \<and> target_ns pulse_neg = - 1000000000
   \<and> Pulse_init (Finite (1 / 10 ^ 300)) = Inl OverflowError
   \<and> LatticeRuntime_init (Finite (1 / 10 ^ 300)) = Inl OverflowError"
  using tiny_rate_overflows
  by (simp add: LatticeRuntime_init_def new_pulse_def pulse_neg_def py_int_def overflows_def)

section \<open>Properties of the Pulse\<close>

lemma wait_keeps_lock:
  assumes "lock_achieved p"
  shows "lock_achieved (fst (wait p a))" "natural_freq (fst (wait p a)) = natural_freq p"
  using assms by (simp_all add: wait_def measured_def fired_def Let_def)

lemma waits_keep_lock:
  "lock_achieved p \<Longrightarrow> lock_achieved (waits p as) \<and> natural_freq (waits p as) = natural_freq p"
proof (induction as arbitrary: p)
  case Nil
  then show ?case by simp
next
  case (Cons a as)
  from wait_keeps_lock [OF Cons.prems, of a] Cons.IH [of "fst (wait p a)"]
  show ?case by simp
qed

lemma pulse_inv_init: "Pulse_init hz = Inr p \<Longrightarrow> pulse_inv p"
  by (cases hz) (auto simp: new_pulse_def pulse_inv_def split: if_splits)

lemma pulse_inv_measured:
  assumes "pulse_inv p"
  shows "pulse_inv (measured p a)"
proof -
  have e: "ema_error p = ema_actual p - of_int (target_ns p)"
    using assms by (simp add: pulse_inv_def)
  show ?thesis
    by (simp add: pulse_inv_def measured_def e algebra_simps)
qed

lemma wait_ema:
  "ema_actual (fst (wait p a)) = ema_actual (measured p a)"
  "ema_error (fst (wait p a)) = ema_error (measured p a)"
  "target_ns (fst (wait p a)) = target_ns p"
  by (simp_all add: wait_def fired_def Let_def measured_def)

lemma pulse_inv_wait: "pulse_inv p \<Longrightarrow> pulse_inv (fst (wait p a))"
  using pulse_inv_measured [of p a] by (simp add: pulse_inv_def wait_ema) (simp add: measured_def)

lemma pulse_inv_waits: "pulse_inv p \<Longrightarrow> pulse_inv (waits p as)"
  by (induction as arbitrary: p) (simp_all add: pulse_inv_wait)

lemma pulse_vitality_bounds: "0 \<le> pulse_vitality recent" "pulse_vitality recent \<le> 1"
proof -
  define mu where "mu = of_int (sum_list recent) / real (length recent)"
  define var where "var = sum_list (map (\<lambda>x. (of_int x - mu)\<^sup>2) recent) / real (length recent)"
  have "0 \<le> sum_list (map (\<lambda>x. (of_int x - mu)\<^sup>2) recent)"
    by (rule sum_list_nonneg) auto
  then have "0 \<le> var" by (simp add: var_def)
  then have cv: "0 \<le> (if mu > 0 then sqrt var / mu else 1)" by simp
  have eq: "pulse_vitality recent = 1 / (1 + (if mu > 0 then sqrt var / mu else 1))"
    by (simp add: pulse_vitality_def Let_def mu_def var_def)
  show "0 \<le> pulse_vitality recent" "pulse_vitality recent \<le> 1"
    unfolding eq using vitality_bounds [OF cv] by simp_all
qed

lemma half_aligned_below_threshold: "s_star (pulse_vitality recent) (1 / 2) < T_STAR"
proof -
  have "FACTOR * pulse_vitality recent \<le> FACTOR * 1"
    using pulse_vitality_bounds(2) [of recent] FACTOR_bounds(1) by (rule mult_left_mono)
  then show ?thesis
    by (simp add: s_star_def FACTOR_def SIGMA_const_def SIGMA_STAR_def T_STAR_def)
qed

lemma lock_needs_interval:
  assumes "pulse_inv p1" "ema_actual p1 = 0" "target_ns p1 \<noteq> 0"
    "1 + \<bar>ema_error p1\<bar> / of_int (target_ns p1) \<noteq> 0"
  shows "s_star (pulse_vitality recent) (1 / (1 + \<bar>ema_error p1\<bar> / of_int (target_ns p1)))
           < T_STAR"
proof -
  have e: "ema_error p1 = - of_int (target_ns p1)"
    using assms(1,2) by (simp add: pulse_inv_def)
  show ?thesis
  proof (cases "target_ns p1 > 0")
    case True
    then have "1 / (1 + \<bar>ema_error p1\<bar> / of_int (target_ns p1)) = 1 / 2"
      by (simp add: e)
    then show ?thesis
      by (simp only: half_aligned_below_threshold)
  next
    case False
    with assms(3) have "target_ns p1 < 0" by simp
    then have "\<bar>ema_error p1\<bar> / of_int (target_ns p1) = - 1"
      by (simp add: e divide_eq_minus_1_iff)
    with assms(4) show ?thesis by simp
  qed
qed

lemma wait_locks:
  assumes "pulse_inv p" "\<not> lock_achieved p" "lock_achieved (fst (wait p a))"
  shows "\<exists>r. snd (wait p a) = Inr r \<and> d_locked r"
    "natural_freq (fst (wait p a)) = Finite (10 ^ 9 / ema_actual (fst (wait p a)))"
proof -
  define p1 where "p1 = measured p a"
  have inv1: "pulse_inv p1" using assms(1) by (simp add: p1_def pulse_inv_measured)
  have nl: "\<not> lock_achieved p1" using assms(2) by (simp add: p1_def measured_def)
  note low = lock_needs_interval [OF inv1, of "last_n 16 (history p1)"]
  have "(\<exists>r. snd (wait p a) = Inr r \<and> d_locked r)
      \<and> natural_freq (fst (wait p a)) = Finite (10 ^ 9 / ema_actual (fst (wait p a)))"
    using assms(3) nl low
    unfolding wait_def Let_def p1_def [symmetric]
    by (auto simp: fired_def Let_def split: if_splits)
  then show "\<exists>r. snd (wait p a) = Inr r \<and> d_locked r"
    "natural_freq (fst (wait p a)) = Finite (10 ^ 9 / ema_actual (fst (wait p a)))"
    by simp_all
qed

text \<open>
  Claim C7. Once \<^verbatim>\<open>lock_achieved\<close> is true, every further sequence of \<^verbatim>\<open>wait\<close>
  calls, whatever the clock measures and whether or not a call raises, leaves it true
  and leaves \<^verbatim>\<open>natural_freq\<close> as it was. And on a Pulse that the constructor built,
  after any calls, a call that switches the lock on returns and has set
  \<^verbatim>\<open>natural_freq\<close> to \<^verbatim>\<open>1e9 / ema_actual\<close>, the smoothed interval being the one just
  updated.
\<close>

theorem pulse_lock_monotone:
  "(lock_achieved p \<longrightarrow>
      lock_achieved (waits p as) \<and> natural_freq (waits p as) = natural_freq p)
   \<and> (Pulse_init hz = Inr p0 \<and> \<not> lock_achieved (waits p0 bs)
        \<and> lock_achieved (fst (wait (waits p0 bs) a)) \<longrightarrow>
          (\<exists>r. snd (wait (waits p0 bs) a) = Inr r \<and> d_locked r)
          \<and> natural_freq (fst (wait (waits p0 bs) a))
              = Finite (10 ^ 9 / ema_actual (fst (wait (waits p0 bs) a))))"
proof -
  have "(\<exists>r. snd (wait (waits p0 bs) a) = Inr r \<and> d_locked r)
      \<and> natural_freq (fst (wait (waits p0 bs) a))
          = Finite (10 ^ 9 / ema_actual (fst (wait (waits p0 bs) a)))"
    if "Pulse_init hz = Inr p0" "\<not> lock_achieved (waits p0 bs)"
      "lock_achieved (fst (wait (waits p0 bs) a))"
  proof -
    have "pulse_inv (waits p0 bs)"
      using that(1) by (simp add: pulse_inv_init pulse_inv_waits)
    from wait_locks [OF this that(2,3)] show ?thesis by simp
  qed
  with waits_keep_lock [of p as] show ?thesis by blast
qed

lemma wait_early:
  assumes "hist_len p < 15"
  shows "wait p a = fired (measured p a) a"
  using assms by (simp add: wait_def measured_def Let_def)

lemma wait_early_state:
  assumes "hist_len p < 15" "length (history p) = hist_len p"
  shows "hist_len (fst (wait p a)) = hist_len p + 1"
    "history (fst (wait p a)) = history p @ [a]"
    "lock_achieved (fst (wait p a)) = lock_achieved p"
    "coherence (fst (wait p a)) = coherence p"
    "target_ns (fst (wait p a)) = target_ns p"
    "\<exists>r. snd (wait p a) = Inr r \<and> d_locked r = lock_achieved p \<and> d_coherence r = coherence p"
  using assms
  by (simp_all add: wait_early measured_def fired_def Let_def deque_append_def)

lemma waits_early:
  "hist_len p + length as \<le> 15 \<Longrightarrow> length (history p) = hist_len p \<Longrightarrow>
     hist_len (waits p as) = hist_len p + length as
     \<and> history (waits p as) = history p @ as
     \<and> lock_achieved (waits p as) = lock_achieved p
     \<and> coherence (waits p as) = coherence p
     \<and> target_ns (waits p as) = target_ns p"
proof (induction as arbitrary: p)
  case Nil
  then show ?case by simp
next
  case (Cons a as)
  from Cons.prems have lt: "hist_len p < 15" by simp
  note st = wait_early_state [OF lt Cons.prems(2), of a]
  have "hist_len (fst (wait p a)) + length as \<le> 15"
    "length (history (fst (wait p a))) = hist_len (fst (wait p a))"
    using Cons.prems st(1,2) by simp_all
  from Cons.IH [OF this] st show ?case by simp
qed





lemma waits_steady:
  "hist_len p + n \<le> 15 \<Longrightarrow> length (history p) = hist_len p \<Longrightarrow>
   ema_actual p = of_int (target_ns p) \<Longrightarrow> ema_error p = 0 \<Longrightarrow>
     ema_actual (waits p (replicate n (target_ns p))) = of_int (target_ns p)
     \<and> ema_error (waits p (replicate n (target_ns p))) = 0
     \<and> sigma_weight (waits p (replicate n (target_ns p))) = sigma_weight p"
proof (induction n arbitrary: p)
  case 0
  then show ?case by simp
next
  case (Suc n)
  define q where "q = fst (wait p (target_ns p))"
  from Suc.prems have lt: "hist_len p < 15" by simp
  note st = wait_early_state [OF lt Suc.prems(2), of "target_ns p"]
  have q: "ema_actual q = of_int (target_ns q)" "ema_error q = 0"
    "sigma_weight q = sigma_weight p" "target_ns q = target_ns p"
    using Suc.prems(3,4)
    by (simp_all add: q_def wait_early [OF lt] measured_def fired_def Let_def algebra_simps)
  have "hist_len q + n \<le> 15" "length (history q) = hist_len q"
    using Suc.prems(1,2) st(1,2) by (simp_all add: q_def)
  from Suc.IH [OF this q(1,2)] q(3,4) show ?case
    by (simp add: q_def)
qed

lemma steady15_fields:
  "hist_len steady15 = 15" "history steady15 = replicate 15 1000000"
  "\<not> lock_achieved steady15" "target_ns steady15 = 1000000"
  "ema_actual steady15 = 1000000" "ema_error steady15 = 0"
  "sigma_weight steady15 = SIGMA_const"
proof -
  have p: "hist_len pulse_1khz + length (replicate 15 (1000000::int)) \<le> 15"
    "length (history pulse_1khz) = hist_len pulse_1khz"
    "hist_len pulse_1khz + 15 \<le> 15"
    "ema_actual pulse_1khz = of_int (target_ns pulse_1khz)" "ema_error pulse_1khz = 0"
    "target_ns pulse_1khz = 1000000"
    by (simp_all add: pulse_1khz_def)
  from waits_early [OF p(1,2)]
  show "hist_len steady15 = 15" "history steady15 = replicate 15 1000000"
    "\<not> lock_achieved steady15" "target_ns steady15 = 1000000"
    by (simp_all add: steady15_def pulse_1khz_def)
  from waits_steady [OF p(3,2,4,5)]
  show "ema_actual steady15 = 1000000" "ema_error steady15 = 0"
    "sigma_weight steady15 = SIGMA_const"
    by (simp_all add: steady15_def p(6)) (simp_all add: pulse_1khz_def)
qed

lemma vitality_constant: "pulse_vitality (replicate 15 1000000 @ [1000000]) = 1"
  by (simp add: pulse_vitality_def Let_def sum_list_replicate)

lemma steady15_locks:
  "\<exists>p' r. wait steady15 1000000 = (p', Inr r) \<and> lock_achieved p' \<and> natural_freq p' = Finite 1000
     \<and> ema_actual p' = 1000000 \<and> d_coherence r = FACTOR"
  by (simp add: wait_def measured_def fired_def Let_def steady15_fields deque_append_def
      last_n_def vitality_constant s_star_def FACTOR_def SIGMA_const_def SIGMA_STAR_def
      T_STAR_def)

theorem pulse_lock_monotone_witness:
  "Pulse_init (Finite 1000) = Inr pulse_1khz
   \<and> \<not> lock_achieved (waits pulse_1khz (replicate 15 1000000))
   \<and> lock_achieved (fst (wait (waits pulse_1khz (replicate 15 1000000)) 1000000))
   \<and> (\<exists>r. snd (wait (waits pulse_1khz (replicate 15 1000000)) 1000000) = Inr r \<and> d_locked r)
   \<and> natural_freq (fst (wait (waits pulse_1khz (replicate 15 1000000)) 1000000))
       = Finite (10 ^ 9 / ema_actual (fst (wait (waits pulse_1khz (replicate 15 1000000)) 1000000)))
   \<and> lock_achieved (waits (fst (wait (waits pulse_1khz (replicate 15 1000000)) 1000000)) [5, 7])
   \<and> natural_freq (waits (fst (wait (waits pulse_1khz (replicate 15 1000000)) 1000000)) [5, 7])
       = Finite 1000"
proof -
  from steady15_locks obtain p' r where w: "wait steady15 1000000 = (p', Inr r)"
    "lock_achieved p'" "natural_freq p' = Finite 1000"
    by blast
  have n: "\<not> lock_achieved steady15" by (rule steady15_fields)
  have l: "lock_achieved (fst (wait steady15 1000000))"
    "natural_freq (fst (wait steady15 1000000)) = Finite 1000"
    using w by simp_all
  from pulse_lock_monotone [of "fst (wait steady15 1000000)" "[5, 7]" "Finite 1000" pulse_1khz
      "replicate 15 1000000" 1000000] Pulse_init_1khz n l
  show ?thesis
    unfolding steady15_def by simp
qed


end
